theory Spec2Isabelle
  imports Complex_Main "HOL-Library.Sublist"
begin

section \<open>JavaScript values and strings\<close>

text \<open>
  The scraper handles strings scraped from markup and values parsed from JSON-LD blocks.
  Both are JavaScript values; \<open>JUndefined\<close> is what reading an absent property gives.
  Numbers are whole numbers here: a fractional JSON number is outside the model.
\<close>

datatype jsval =
    JUndefined
  | JNull
  | JBool bool
  | JNum int
  | JStr string
  | JArr "jsval list"
  | JObj "(string \<times> jsval) list"

text \<open>JavaScript truthiness, as tested by \<open>!x\<close>, \<open>x || y\<close>, \<open>x && y\<close> and \<open>if (x)\<close>.\<close>

fun truthy :: "jsval \<Rightarrow> bool" where
  "truthy JUndefined = False"
| "truthy JNull = False"
| "truthy (JBool b) = b"
| "truthy (JNum n) = (n \<noteq> 0)"
| "truthy (JStr s) = (s \<noteq> [])"
| "truthy (JArr xs) = True"
| "truthy (JObj kvs) = True"

definition js_or :: "jsval \<Rightarrow> jsval \<Rightarrow> jsval" where
  "js_or a b = (if truthy a then a else b)"

text \<open>
  Strings, numbers, booleans, \<open>null\<close> and \<open>undefined\<close> are compared by their contents;
  arrays and objects are compared by identity, and every array or object the scraper sees
  is a fresh one (from \<open>JSON.parse\<close>), so it is never identical to one met before.
\<close>

fun is_primitive :: "jsval \<Rightarrow> bool" where
  "is_primitive (JArr xs) = False"
| "is_primitive (JObj kvs) = False"
| "is_primitive v = True"

text \<open>
  A JavaScript \<open>Set\<close> keeps its members in insertion order. \<open>set_has\<close> is \<open>Set.has\<close>,
  \<open>set_add\<close> is \<open>Set.add\<close>.
\<close>

definition set_has :: "jsval list \<Rightarrow> jsval \<Rightarrow> bool" where
  "set_has s v = (is_primitive v \<and> v \<in> set s)"

definition set_add :: "jsval list \<Rightarrow> jsval \<Rightarrow> jsval list" where
  "set_add s v = (if set_has s v then s else s @ [v])"

text \<open>\<open>String.prototype.trim\<close>, over the ASCII white space characters.\<close>

definition is_space :: "char \<Rightarrow> bool" where
  "is_space c = (c \<in> set [CHR '' '', CHR 0x09, CHR 0x0A, CHR 0x0B, CHR 0x0C, CHR 0x0D])"

definition trim :: "string \<Rightarrow> string" where
  "trim s = rev (dropWhile is_space (rev (dropWhile is_space s)))"

text \<open>\<open>s.startsWith(p)\<close> and \<open>s.includes(p)\<close>.\<close>

definition startsWith :: "string \<Rightarrow> string \<Rightarrow> bool" where
  "startsWith s p = (take (length p) s = p)"

fun includes_str :: "string \<Rightarrow> string \<Rightarrow> bool" where
  "includes_str [] p = (p = [])"
| "includes_str (c # cs) p = (startsWith (c # cs) p \<or> includes_str cs p)"

text \<open>\<open>String.prototype.toLowerCase\<close>, over ASCII letters.\<close>

definition lower_char :: "char \<Rightarrow> char" where
  "lower_char c =
     (let n = (of_char c :: nat) in if 65 \<le> n \<and> n \<le> 90 then char_of (n + 32) else c)"

definition toLowerCase :: "string \<Rightarrow> string" where
  "toLowerCase s = map lower_char s"

text \<open>Decimal rendering of a number, as string interpolation prints an integer.\<close>

definition digit_char :: "nat \<Rightarrow> char" where
  "digit_char d = char_of (48 + d)"

fun show_nat :: "nat \<Rightarrow> string" where
  "show_nat n = (if n < 10 then [digit_char n] else show_nat (n div 10) @ [digit_char (n mod 10)])"

declare show_nat.simps [simp del]

definition show_int :: "int \<Rightarrow> string" where
  "show_int i = (if i < 0 then CHR ''-'' # show_nat (nat (- i)) else show_nat (nat i))"

section \<open>The job record\<close>

text \<open>
  One output record. A JavaScript object is a bag of properties: a property the object
  does not have reads as \<open>JUndefined\<close>. The listing extractors set the first eleven
  fields; \<open>tags\<close> and \<open>jobId\<close> exist only after enrichment.
\<close>

record job =
  title :: jsval
  company :: jsval
  location :: jsval
  salary :: jsval
  experience :: jsval
  jobType :: jsval
  postedDate :: jsval
  descriptionHtml :: jsval
  descriptionText :: jsval
  url :: jsval
  scrapedAt :: jsval
  tags :: jsval
  jobId :: jsval

text \<open>
  What \<open>fetchFullDescription\<close> returns: \<open>{ blocked: true }\<close>, \<open>null\<close>, or an object of
  description fields (read through the same field names; fields it lacks are undefined).
\<close>

datatype outcome = Blocked | NoContent | Ok job

section \<open>Detail-page enrichment (src/main.js)\<close>

text \<open>
  \<open>enrichJobsWithFullDescriptions\<close> of src/main.js: the jobs are visited in order;
  \<open>fetch\<close> stands for \<open>fetchFullDescription(job.url, page)\<close>. The loop keeps the
  list built so far and the local counter \<open>blockedCount\<close>, which the function reports
  in its closing log line; the model returns both.
\<close>

fun enrich_loop :: "(jsval \<Rightarrow> outcome) \<Rightarrow> job list \<Rightarrow> job list \<Rightarrow> nat \<Rightarrow> job list \<times> nat" where
  "enrich_loop fetch [] enrichedJobs blockedCount = (enrichedJobs, blockedCount)"
| "enrich_loop fetch (j # rest) enrichedJobs blockedCount =
     (if \<not> truthy (url j) then enrich_loop fetch rest (enrichedJobs @ [j]) blockedCount
      else case fetch (url j) of
        Blocked \<Rightarrow> enrich_loop fetch rest (enrichedJobs @ [j]) (blockedCount + 1)
      | NoContent \<Rightarrow> enrich_loop fetch rest (enrichedJobs @ [j]) blockedCount
      | Ok fullDesc \<Rightarrow>
          if truthy (descriptionText fullDesc)
          then enrich_loop fetch rest
                 (enrichedJobs @ [j\<lparr>descriptionHtml := descriptionHtml fullDesc,
                                     descriptionText := descriptionText fullDesc\<rparr>])
                 blockedCount
          else enrich_loop fetch rest (enrichedJobs @ [j]) blockedCount)"

definition enrichJobsWithFullDescriptions ::
  "(jsval \<Rightarrow> outcome) \<Rightarrow> job list \<Rightarrow> bool \<Rightarrow> job list \<times> nat" where
  "enrichJobsWithFullDescriptions fetch jobs fullPageDetails =
     (if jobs = [] then (jobs, 0)
      else if \<not> fullPageDetails then (jobs, 0)
      else enrich_loop fetch jobs [] 0)"

section \<open>Deduplication and listing controller\<close>

text \<open>
  The run-wide variables of the main program, and the dataset that \<open>Actor.pushData\<close>
  appends to.
\<close>

record run_state =
  totalJobsScraped :: nat
  pagesProcessed :: nat
  extractionMethod :: string
  seenJobUrls :: "jsval list"
  dataset :: "job list"

text \<open>
  The duplicate filter: \<open>jobsToSave.filter(job => ...)\<close> with its side effect on
  \<open>seenJobUrls\<close>. It returns the kept jobs and the set afterwards.
\<close>

fun filter_unique :: "jsval list \<Rightarrow> job list \<Rightarrow> job list \<times> jsval list" where
  "filter_unique seen [] = ([], seen)"
| "filter_unique seen (j # rest) =
     (if \<not> truthy (url j) then
        (let (kept, seen') = filter_unique seen rest in (j # kept, seen'))
      else if set_has seen (url j) then filter_unique seen rest
      else (let (kept, seen') = filter_unique (set_add seen (url j)) rest in (j # kept, seen')))"

text \<open>
  The part of \<open>requestHandler\<close> that runs when a page gave jobs: truncate to the
  remaining quota, drop duplicates, enrich, push to the dataset, count. It returns the
  state and the batch that was saved.
\<close>

definition save_batch ::
  "nat \<Rightarrow> bool \<Rightarrow> (jsval \<Rightarrow> outcome) \<Rightarrow> run_state \<Rightarrow> job list \<Rightarrow> run_state \<times> job list" where
  "save_batch maxJobs fullPageDetails fetch st jobs =
     (let jobsToSave = (if maxJobs > 0 then take (maxJobs - totalJobsScraped st) jobs else jobs);
          (uniqueJobs, seen') = filter_unique (seenJobUrls st) jobsToSave;
          jobsToSave = (if uniqueJobs \<noteq> [] \<and> fullPageDetails
                        then fst (enrichJobsWithFullDescriptions fetch uniqueJobs fullPageDetails)
                        else uniqueJobs);
          st = st\<lparr>seenJobUrls := seen'\<rparr>
      in if jobsToSave \<noteq> []
         then (st\<lparr>dataset := dataset st @ jobsToSave,
                   totalJobsScraped := totalJobsScraped st + length jobsToSave\<rparr>, jobsToSave)
         else (st, jobsToSave))"


text \<open>The run starts with nothing saved and nothing seen.\<close>

definition initial_state :: run_state where
  "initial_state =
     \<lparr>totalJobsScraped = 0, pagesProcessed = 0, extractionMethod = ''None'',
      seenJobUrls = [], dataset = []\<rparr>"




text \<open>
  A listing record with a title and a URL and the defaults \<open>extractJobFromElement\<close>
  gives every other field; used for concrete runs.
\<close>

definition listing_job :: "string \<Rightarrow> string \<Rightarrow> job" where
  "listing_job t u =
     \<lparr>title = JStr t, company = JStr [], location = JStr [], salary = JStr ''Not specified'',
      experience = JStr ''Not specified'', jobType = JStr ''Not specified'',
      postedDate = JStr [], descriptionHtml = JStr [], descriptionText = JStr [],
      url = JStr u, scrapedAt = JStr ''2026-01-01T00:00:00.000Z'',
      tags = JUndefined, jobId = JUndefined\<rparr>"

section \<open>Markup extractor\<close>

text \<open>
  The DOM query engine (cheerio) is outside the program. A card is what the queries of
  \<open>extractJobFromElement\<close> give on one listing element: for each selector list, in the
  order of the list, the text (or \<open>href\<close>) of the first element the selector matches,
  \<open>None\<close> where it matches nothing (for \<open>urlHrefs\<close> also where the match has no
  \<open>href\<close> attribute); the element's anchors with an \<open>href\<close>, in document order; its own
  \<open>data-href\<close>, \<open>data-url\<close> and \<open>data-jdurl\<close> attributes; and the text and inner HTML
  of its snippet element.
\<close>

record anchor =
  anchorHref :: string
  anchorText :: string
  anchorTitle :: "string option"

record card =
  titleTexts :: "string option list"
  urlHrefs :: "string option list"
  anchors :: "anchor list"
  dataHref :: "string option"
  dataUrl :: "string option"
  dataJdurl :: "string option"
  companyTexts :: "string option list"
  locationTexts :: "string option list"
  expTexts :: "string option list"
  salaryTexts :: "string option list"
  dateTexts :: "string option list"
  snippetText :: string
  snippetHtml :: "string option"

text \<open>
  The selector loops \<open>for (const sel of ...Selectors)\<close>: the first match whose trimmed
  text is not empty wins; \<open>dflt\<close> is the value the variable had before the loop.
\<close>

fun first_match :: "string \<Rightarrow> string option list \<Rightarrow> string" where
  "first_match dflt [] = dflt"
| "first_match dflt (None # rest) = first_match dflt rest"
| "first_match dflt (Some t # rest) = (if trim t \<noteq> [] then trim t else first_match dflt rest)"

definition absolute_url :: "string \<Rightarrow> string" where
  "absolute_url href = (if startsWith href ''http'' then href else ''https://www.naukri.com'' @ href)"

fun first_href :: "string option list \<Rightarrow> string" where
  "first_href [] = []"
| "first_href (None # rest) = first_href rest"
| "first_href (Some h # rest) = (if h \<noteq> [] then absolute_url h else first_href rest)"

text \<open>\<open>a || b || ... || ''\<close> over attribute reads: the first that is defined and not empty.\<close>

fun first_truthy :: "string option list \<Rightarrow> string" where
  "first_truthy [] = []"
| "first_truthy (None # rest) = first_truthy rest"
| "first_truthy (Some s # rest) = (if s \<noteq> [] then s else first_truthy rest)"

text \<open>
  The scan of the card's anchors, run when the selectors gave no URL: the first anchor
  whose \<open>href\<close> names a job listing gives the URL, and the title if there is none yet.
  It returns the URL and the title.
\<close>

fun anchor_scan :: "anchor list \<Rightarrow> string \<Rightarrow> string \<times> string" where
  "anchor_scan [] ttl = ([], ttl)"
| "anchor_scan (a # rest) ttl =
     (let href = trim (anchorHref a)
      in if href = [] then anchor_scan rest ttl
         else if \<not> includes_str href ''job-listings'' \<and> \<not> startsWith href ''/job-listings''
         then anchor_scan rest ttl
         else (absolute_url href,
               if ttl = [] then trim (first_truthy [Some (anchorText a), anchorTitle a])
               else ttl))"

text \<open>
  \<open>extractJobFromElement($, $el, fallback)\<close>; \<open>now\<close> is \<open>new Date().toISOString()\<close>,
  \<open>fbTitle\<close> and \<open>fbUrl\<close> are \<open>fallback.title\<close> and \<open>fallback.url\<close> (empty when the caller
  gives no fallback). \<open>None\<close> is the \<open>null\<close> it returns.
\<close>

definition extractJobFromElement :: "string \<Rightarrow> card \<Rightarrow> string \<Rightarrow> string \<Rightarrow> job option" where
  "extractJobFromElement now el fbTitle fbUrl =
     (let title = first_match [] (titleTexts el);
          url = first_href (urlHrefs el);
          (url, title) = (if url = [] then anchor_scan (anchors el) title else (url, title));
          url = (if url = []
                 then (let dh = trim (first_truthy [dataHref el, dataUrl el, dataJdurl el])
                       in if dh \<noteq> [] then absolute_url dh else url)
                 else url);
          title = (if title = [] \<and> fbTitle \<noteq> [] then fbTitle else title);
          url = (if url = [] \<and> fbUrl \<noteq> [] then fbUrl else url);
          company = first_match [] (companyTexts el);
          location = first_match [] (locationTexts el);
          experience = first_match ''Not specified'' (expTexts el);
          salary = first_match ''Not specified'' (salaryTexts el);
          snippet = trim (snippetText el);
          snippetHtml = (case snippetHtml el of None \<Rightarrow> [] | Some h \<Rightarrow> trim h);
          postedDate = first_match [] (dateTexts el)
      in if title \<noteq> [] \<or> url \<noteq> [] then
           Some \<lparr>title = JStr (if title \<noteq> [] then title else ''Unknown Title''),
                 company = JStr company, location = JStr location, salary = JStr salary,
                 experience = JStr experience, jobType = JStr ''Not specified'',
                 postedDate = JStr postedDate, descriptionHtml = JStr snippetHtml,
                 descriptionText = JStr snippet, url = JStr url, scrapedAt = JStr now,
                 tags = JUndefined, jobId = JUndefined\<rparr>
         else None)"

text \<open>
  A listing page as the queries of \<open>extractJobDataViaHTML\<close> see it: the elements of the
  primary selector group; for each of the four fallback selectors the elements it matches,
  each with the job tuples found inside it; and the job-listing links, each with its
  nearest enclosing \<open>article\<close> or \<open>div\<close> (if any) and its parent.
\<close>

datatype container = Container (tuples: "card list") (self: card)

record link =
  linkHref :: "string option"
  linkText :: string
  linkTitle :: "string option"
  closest :: "card option"
  parent :: card

record listing_dom =
  jobElements :: "card list"
  fallbackElements :: "container list list"
  jobLinkEls :: "link list"

text \<open>
  \<open>if (job && job.url && !seenUrls.has(job.url)) { seenUrls.add(job.url); jobs.push(job); }\<close>
  on the pair of \<open>jobs\<close> and \<open>seenUrls\<close>.
\<close>

definition push_job :: "job option \<Rightarrow> job list \<times> jsval list \<Rightarrow> job list \<times> jsval list" where
  "push_job r acc =
     (case r of
        None \<Rightarrow> acc
      | Some j \<Rightarrow>
          if truthy (url j) \<and> \<not> set_has (snd acc) (url j)
          then (fst acc @ [j], set_add (snd acc) (url j))
          else acc)"

definition card_step :: "string \<Rightarrow> job list \<times> jsval list \<Rightarrow> card \<Rightarrow> job list \<times> jsval list" where
  "card_step now acc el = push_job (extractJobFromElement now el [] []) acc"

text \<open>One fallback element: its tuples if it holds any, else the element itself.\<close>

definition container_step ::
  "string \<Rightarrow> job list \<times> jsval list \<Rightarrow> container \<Rightarrow> job list \<times> jsval list" where
  "container_step now acc c =
     (if tuples c \<noteq> [] then foldl (card_step now) acc (tuples c)
      else card_step now acc (self c))"

text \<open>The loop over the fallback selectors, left at the first selector that gave a job.\<close>

fun fallback_loop ::
  "string \<Rightarrow> container list list \<Rightarrow> job list \<times> jsval list \<Rightarrow> job list \<times> jsval list" where
  "fallback_loop now [] acc = acc"
| "fallback_loop now (elements # rest) acc =
     (if elements \<noteq> [] then
        (let acc' = foldl (container_step now) acc elements
         in if fst acc' \<noteq> [] then acc' else fallback_loop now rest acc')
      else fallback_loop now rest acc)"

text \<open>The loop over the job-listing links, run when no tuple gave a job.\<close>

fun link_loop :: "string \<Rightarrow> link list \<Rightarrow> job list \<times> jsval list \<Rightarrow> job list \<times> jsval list" where
  "link_loop now [] acc = acc"
| "link_loop now (l # rest) acc =
     (let href = first_truthy [linkHref l]
      in if href = [] then link_loop now rest acc
         else
           (let absoluteUrl = absolute_url href
            in if set_has (snd acc) (JStr absoluteUrl) then link_loop now rest acc
               else
                 (let titleFromLink = trim (first_truthy [Some (linkText l), linkTitle l]);
                      el = (case closest l of Some c \<Rightarrow> c | None \<Rightarrow> parent l)
                  in link_loop now rest
                       (push_job (extractJobFromElement now el titleFromLink absoluteUrl) acc))))"

text \<open>
  \<open>extractJobDataViaHTML(page)\<close>. \<open>None\<close> for the page stands for \<open>page.content()\<close> or the
  parser raising, which the function's \<open>catch\<close> turns into the empty list.
\<close>

definition extractJobDataViaHTML :: "string \<Rightarrow> listing_dom option \<Rightarrow> job list" where
  "extractJobDataViaHTML now page =
     (case page of
        None \<Rightarrow> []
      | Some doc \<Rightarrow>
          (let acc = (if jobElements doc = []
                      then fallback_loop now (fallbackElements doc) ([], [])
                      else foldl (card_step now) ([], []) (jobElements doc));
               acc = (if fst acc = [] then link_loop now (jobLinkEls doc) acc else acc)
           in fst acc))"

text \<open>
  First-occurrence deduplication by URL, stated on positions: a record stays when no
  record before it has its URL.
\<close>

definition first_by_url :: "job list \<Rightarrow> job list" where
  "first_by_url js =
     map (\<lambda>i. js ! i) (filter (\<lambda>i. url (js ! i) \<notin> url ` set (take i js)) [0..<length js])"

text \<open>The records that a list of cards yields with a URL, in card order.\<close>

definition url_records :: "string \<Rightarrow> card list \<Rightarrow> job list" where
  "url_records now els =
     filter (\<lambda>j. truthy (url j)) (List.map_filter (\<lambda>el. extractJobFromElement now el [] []) els)"

text \<open>The cards one fallback element stands for.\<close>

definition container_cards :: "container \<Rightarrow> card list" where
  "container_cards c = (if tuples c \<noteq> [] then tuples c else [self c])"

text \<open>
  What the tuple paths are expected to give for a list of cards, and for the fallback
  selectors: the cards of the first selector that yields a record with a URL.
\<close>

definition card_list_jobs :: "string \<Rightarrow> card list \<Rightarrow> job list" where
  "card_list_jobs now els = first_by_url (url_records now els)"

definition tuple_jobs :: "string \<Rightarrow> listing_dom \<Rightarrow> job list" where
  "tuple_jobs now doc =
     (if jobElements doc \<noteq> [] then card_list_jobs now (jobElements doc)
      else case List.find (\<lambda>g. card_list_jobs now (concat (map container_cards g)) \<noteq> [])
                  (fallbackElements doc) of
             Some g \<Rightarrow> card_list_jobs now (concat (map container_cards g))
           | None \<Rightarrow> [])"

text \<open>The invariant of the pair \<open>jobs\<close>, \<open>seenUrls\<close> inside the extractor.\<close>

definition acc_ok :: "job list \<times> jsval list \<Rightarrow> bool" where
  "acc_ok acc =
     (snd acc = map url (fst acc) \<and> distinct (snd acc) \<and>
      (\<forall>j \<in> set (fst acc). \<exists>u. url j = JStr u \<and> u \<noteq> []))"

text \<open>
  A card on which only the first title selector matches (text \<open>t\<close>) and the first URL
  selector gives \<open>h\<close>; used for concrete pages.
\<close>

definition plain_card :: "string \<Rightarrow> string option \<Rightarrow> card" where
  "plain_card t h =
     \<lparr>titleTexts = [Some t], urlHrefs = [h], anchors = [], dataHref = None, dataUrl = None,
      dataJdurl = None, companyTexts = [], locationTexts = [], expTexts = [],
      salaryTexts = [], dateTexts = [], snippetText = [], snippetHtml = None\<rparr>"

definition example_now :: string where
  "example_now = ''2026-01-01T00:00:00.000Z''"

text \<open>A page of three cards, the second repeating the first one's URL.\<close>

definition example_page :: listing_dom where
  "example_page =
     \<lparr>jobElements = [plain_card ''A'' (Some ''/job-listings-a''),
                      plain_card ''B'' (Some ''/job-listings-a''),
                      plain_card ''C'' (Some ''http://x/c'')],
      fallbackElements = [], jobLinkEls = []\<rparr>"

text \<open>A page of two cards, the first with a title and no URL.\<close>

definition example_page_no_url :: listing_dom where
  "example_page_no_url =
     \<lparr>jobElements = [plain_card ''A'' None, plain_card ''C'' (Some ''http://x/c'')],
      fallbackElements = [], jobLinkEls = []\<rparr>"

text \<open>
  The link path in the same terms. The card of a link is the element its record is read
  from: the nearest enclosing \<open>article\<close> or \<open>div\<close>, else the parent. The record of a link
  is what \<open>extractJobFromElement\<close> gives on that card with the link's text and URL as
  fallback; a link without an \<open>href\<close> gives none. \<open>link_jobs\<close> is what the link path is
  expected to give: the first-occurrence deduplication of the links' records, in the
  order of the links.
\<close>

definition link_card :: "link \<Rightarrow> card" where
  "link_card l = (case closest l of Some c \<Rightarrow> c | None \<Rightarrow> parent l)"

definition link_url :: "link \<Rightarrow> string" where
  "link_url l = absolute_url (first_truthy [linkHref l])"

definition link_record :: "string \<Rightarrow> link \<Rightarrow> job option" where
  "link_record now l =
     (if first_truthy [linkHref l] = [] then None
      else extractJobFromElement now (link_card l)
             (trim (first_truthy [Some (linkText l), linkTitle l])) (link_url l))"

definition link_records :: "string \<Rightarrow> link list \<Rightarrow> job list" where
  "link_records now ls = List.map_filter (link_record now) ls"

definition link_jobs :: "string \<Rightarrow> link list \<Rightarrow> job list" where
  "link_jobs now ls = first_by_url (link_records now ls)"

text \<open>
  The document behind the link path, as far as the link queries see it. A node is a job
  link, that is an anchor matched by \<open>a[href*="job-listings"]\<close>, whose \<open>href\<close> therefore
  is some \<open>pre @ ''job-listings'' @ post\<close>, given with its text and its \<open>title\<close>
  attribute; or it is any other element, given with its children among these nodes, in
  document order. An element says whether it is an \<open>article\<close> or a \<open>div\<close>, and carries
  the results of the queries of \<open>extractJobFromElement\<close> on it. All of them are free
  but one: the first URL selector is the selector of the job links, so on an element it
  gives the \<open>href\<close> of the first job link below it (\<open>element_card\<close>).
\<close>

datatype dom_node =
    JobAnchor string string string "string option"
  | DomElement bool card "dom_node list"

fun job_hrefs :: "dom_node \<Rightarrow> string list" where
  "job_hrefs (JobAnchor pre post t ti) = [pre @ ''job-listings'' @ post]"
| "job_hrefs (DomElement blk el kids) = concat (map job_hrefs kids)"

definition element_card :: "card \<Rightarrow> dom_node list \<Rightarrow> card" where
  "element_card el kids =
     el\<lparr>urlHrefs := (case concat (map job_hrefs kids) of [] \<Rightarrow> None | h # hs \<Rightarrow> Some h)
                       # tl (urlHrefs el)\<rparr>"

text \<open>
  \<open>$('a[href*="job-listings"], a[href^="/job-listings"]').toArray()\<close> on such a document,
  each link with \<open>$link.closest('article, div')\<close> and \<open>$link.parent()\<close>: \<open>cl\<close> is the card of
  the nearest enclosing \<open>article\<close> or \<open>div\<close> met on the way down, \<open>par\<close> the card of the
  parent.
\<close>

fun climb :: "card option \<Rightarrow> card \<Rightarrow> dom_node \<Rightarrow> link list" where
  "climb cl par (JobAnchor pre post t ti) =
     [\<lparr>linkHref = Some (pre @ ''job-listings'' @ post), linkText = t, linkTitle = ti,
       closest = cl, parent = par\<rparr>]"
| "climb cl par (DomElement blk el kids) =
     (let c = element_card el kids
      in concat (map (climb (if blk then Some c else cl) c) kids))"

text \<open>The job links of a document; its root is an element.\<close>

definition document_links :: "dom_node \<Rightarrow> link list" where
  "document_links html =
     (case html of
        DomElement blk el kids \<Rightarrow> climb None el html
      | JobAnchor pre post t ti \<Rightarrow> [])"

text \<open>
  What the tree gives the link path. A link is the first of its card when it has an
  \<open>href\<close> and the URL selectors give its own URL on its card. In a list of links taken in
  document order, every link is the first of its card, or its card gives the URL of an
  earlier link that is the first of its own card; \<open>ctx\<close>, when given, is a card from
  further up whose links are not judged yet, and \<open>earlier\<close> are the links before the list.
\<close>

definition own_first :: "link \<Rightarrow> bool" where
  "own_first l =
     (first_truthy [linkHref l] \<noteq> [] \<and> first_href (urlHrefs (link_card l)) = link_url l)"

fun climbs_within :: "card option \<Rightarrow> link list \<Rightarrow> link list \<Rightarrow> bool" where
  "climbs_within ctx earlier [] = True"
| "climbs_within ctx earlier (l # ls) =
     ((ctx = Some (link_card l) \<or> own_first l \<or>
       (\<exists>k \<in> set earlier. own_first k \<and> first_href (urlHrefs (link_card l)) = link_url k)) \<and>
      climbs_within ctx (earlier @ [l]) ls)"

text \<open>
  A document for a concrete page: three blocks, the second holding two job links, the
  first of which repeats the URL of the first block's link.
\<close>

definition example_document :: dom_node where
  "example_document =
     DomElement False (plain_card ''A'' None)
       [DomElement True (plain_card ''A'' None) [JobAnchor ''/'' ''-a'' ''A'' None],
        DomElement True (plain_card ''A again'' None)
          [JobAnchor ''/'' ''-a'' ''A again'' None, JobAnchor ''/'' ''-b'' ''B'' None],
        DomElement True (plain_card ''C'' None) [JobAnchor ''http://x/'' ''-c'' ''C'' None]]"

definition example_link_page :: listing_dom where
  "example_link_page =
     \<lparr>jobElements = [], fallbackElements = [], jobLinkEls = document_links example_document\<rparr>"

section \<open>Structured-data extractor\<close>

text \<open>
  Reading a property. On \<open>null\<close> and \<open>undefined\<close> the read raises a \<open>TypeError\<close>; the
  callers below test \<open>nullish\<close> first where the value may be one of them. On an object it
  is the property's value, \<open>undefined\<close> when absent (\<open>JSON.parse\<close> gives an object each
  key once); none of the keys the scraper reads exists on a string, number, boolean or
  array, so there the read gives \<open>undefined\<close>.
\<close>

datatype js_error = TypeError

fun nullish :: "jsval \<Rightarrow> bool" where
  "nullish JUndefined = True"
| "nullish JNull = True"
| "nullish v = False"

fun get_prop :: "jsval \<Rightarrow> string \<Rightarrow> jsval" where
  "get_prop (JObj kvs) k = (case map_of kvs k of Some v \<Rightarrow> v | None \<Rightarrow> JUndefined)"
| "get_prop v k = JUndefined"

text \<open>\<open>for (const x of v)\<close>: an array gives its elements, a string its characters; any
  other value is not iterable.\<close>

fun iterate :: "jsval \<Rightarrow> js_error + jsval list" where
  "iterate (JArr xs) = Inr xs"
| "iterate (JStr s) = Inr (map (\<lambda>c. JStr [c]) s)"
| "iterate v = Inl TypeError"

text \<open>Running a step on the result of one that may have raised.\<close>

definition and_then :: "js_error + 'a \<Rightarrow> ('a \<Rightarrow> js_error + 'b) \<Rightarrow> js_error + 'b" where
  "and_then r f = (case r of Inl e \<Rightarrow> Inl e | Inr x \<Rightarrow> f x)"

text \<open>The results of a list of steps, in order; the first exception ends it.\<close>

fun all_results :: "(js_error + 'a) list \<Rightarrow> js_error + 'a list" where
  "all_results [] = Inr []"
| "all_results (r # rs) =
     (case r of
        Inl e \<Rightarrow> Inl e
      | Inr x \<Rightarrow> (case all_results rs of Inl e \<Rightarrow> Inl e | Inr xs \<Rightarrow> Inr (x # xs)))"

text \<open>
  Conversion to a string (\<open>ToString\<close>), as a template literal and \<open>Array.prototype.join\<close>
  do it. An array is converted by joining its elements with commas, \<open>null\<close> and
  \<open>undefined\<close> elements printing as the empty string. An object is converted by its
  \<open>toString\<close> method: the inherited one gives \<open>[object Object]\<close>; an object that has a
  \<open>toString\<close> property of its own has a parsed JSON value there, which is no function,
  and the conversion raises a \<open>TypeError\<close> (\<open>valueOf\<close>, tried next, is no function
  either or is the inherited one, which returns the object itself).
\<close>

fun join_with :: "string \<Rightarrow> string list \<Rightarrow> string" where
  "join_with sep [] = []"
| "join_with sep [s] = s"
| "join_with sep (s # t # rest) = s @ sep @ join_with sep (t # rest)"

fun js_to_string :: "jsval \<Rightarrow> js_error + string" where
  "js_to_string JUndefined = Inr ''undefined''"
| "js_to_string JNull = Inr ''null''"
| "js_to_string (JBool b) = Inr (if b then ''true'' else ''false'')"
| "js_to_string (JNum n) = Inr (show_int n)"
| "js_to_string (JStr s) = Inr s"
| "js_to_string (JArr xs) =
     and_then
       (all_results (map (\<lambda>x. if x = JNull \<or> x = JUndefined then Inr [] else js_to_string x) xs))
       (\<lambda>parts. Inr (join_with '','' parts))"
| "js_to_string (JObj kvs) =
     (if map_of kvs ''toString'' \<noteq> None then Inl TypeError else Inr ''[object Object]'')"

text \<open>
  The regular expressions of \<open>extractExperience\<close>, matched by hand. \<open>\d\<close> is an ASCII
  digit, \<open>\s\<close> white space, and the \<open>i\<close> flag ignores case. Each matcher takes the text from
  a start position on and returns the captured groups of a match starting there.
\<close>

definition is_digit :: "char \<Rightarrow> bool" where
  "is_digit c = (let n = (of_char c :: nat) in 48 \<le> n \<and> n \<le> 57)"

text \<open>\<open>(?:years?|yrs?)\<close> at the head of the text.\<close>

definition unit_here :: "string \<Rightarrow> bool" where
  "unit_here s = (startsWith (toLowerCase s) ''year'' \<or> startsWith (toLowerCase s) ''yr'')"

text \<open>
  \<open>/(\d+)[\s-]+(?:to|-)[\s]*(\d+)[\s]*(?:years?|yrs?)/i\<close> at one start position. After the
  first number comes a run of white space and hyphens. Either the whole run is taken and
  \<open>to\<close> follows it, or the run is given back down to its last hyphen, which then is the
  separator: that hyphen must not be the run's first character (the run without its
  trailing white space has two characters or more), and the second number follows the run.
\<close>

definition range_here :: "string \<Rightarrow> (string \<times> string) option" where
  "range_here s =
     (let d1 = takeWhile is_digit s; r1 = dropWhile is_digit s;
          run = takeWhile (\<lambda>c. is_space c \<or> c = CHR ''-'') r1;
          r2 = dropWhile (\<lambda>c. is_space c \<or> c = CHR ''-'') r1;
          afterTo = dropWhile is_space (drop 2 r2);
          tail = (if startsWith (toLowerCase r2) ''to'' then afterTo else r2);
          sepOk = (startsWith (toLowerCase r2) ''to'' \<or>
                   length (dropWhile is_space (rev run)) \<ge> 2);
          d2 = takeWhile is_digit tail;
          r3 = dropWhile is_space (dropWhile is_digit tail)
      in if d1 \<noteq> [] \<and> run \<noteq> [] \<and> sepOk \<and> d2 \<noteq> [] \<and> unit_here r3 then Some (d1, d2) else None)"

text \<open>\<open>/(\d+)[\s]*(?:\+)?[\s]*(?:years?|yrs?)/i\<close> at one start position.\<close>

definition single_here :: "string \<Rightarrow> string option" where
  "single_here s =
     (let d = takeWhile is_digit s; r1 = dropWhile is_space (dropWhile is_digit s);
          r2 = (case r1 of c # cs \<Rightarrow> if c = CHR ''+'' then dropWhile is_space cs else r1 | [] \<Rightarrow> r1)
      in if d \<noteq> [] \<and> unit_here r2 then Some d else None)"

text \<open>\<open>text.match(re)\<close> without the \<open>g\<close> flag: the leftmost start position that matches.\<close>

fun first_match_at :: "(string \<Rightarrow> 'a option) \<Rightarrow> string \<Rightarrow> 'a option" where
  "first_match_at m [] = m []"
| "first_match_at m (c # cs) = (case m (c # cs) of Some r \<Rightarrow> Some r | None \<Rightarrow> first_match_at m cs)"

text \<open>
  \<open>extractExperience(text)\<close>. The argument is \<open>jobData.description || ''\<close>: a value that is
  truthy and not a string has no \<open>match\<close> method, and the call raises.
\<close>

definition extractExperience :: "jsval \<Rightarrow> js_error + jsval" where
  "extractExperience v =
     (if \<not> truthy v then Inr (JStr ''Not specified'')
      else case v of
        JStr s \<Rightarrow>
          (case first_match_at range_here s of
             Some (a, b) \<Rightarrow> Inr (JStr (a @ ''-'' @ b @ '' years''))
           | None \<Rightarrow>
              (case first_match_at single_here s of
                 Some a \<Rightarrow> Inr (JStr (a @ ''+ years''))
               | None \<Rightarrow>
                  if includes_str (toLowerCase s) ''fresher'' then Inr (JStr ''0-1 years'')
                  else Inr (JStr ''Not specified'')))
      | _ \<Rightarrow> Inl TypeError)"

text \<open>
  \<open>stripHtml(html)\<close>: \<open>html.replace(/<[^>]*>/g, ' ').replace(/\s+/g, ' ').trim()\<close>. A
  \<open><\<close> with no \<open>>\<close> after it starts no tag and stays. A value that is truthy and not
  a string has no \<open>replace\<close> method, and the call raises.
\<close>

function strip_tags :: "string \<Rightarrow> string" where
  "strip_tags [] = []"
| "strip_tags (c # cs) =
     (if c = CHR ''<'' \<and> CHR ''>'' \<in> set cs
      then CHR '' '' # strip_tags (tl (dropWhile (\<lambda>x. x \<noteq> CHR ''>'') cs))
      else c # strip_tags cs)"
  by pat_completeness auto
termination
proof (relation "measure length")
  show "wf (measure length)" by simp
next
  fix c :: char and cs :: string
  assume "c = CHR ''<'' \<and> CHR ''>'' \<in> set cs"
  have "length (dropWhile (\<lambda>x. x \<noteq> CHR ''>'') cs) \<le> length cs"
    by (rule length_dropWhile_le)
  then show "(tl (dropWhile (\<lambda>x. x \<noteq> CHR ''>'') cs), c # cs) \<in> measure length"
    by simp
next
  fix c :: char and cs :: string
  show "(cs, c # cs) \<in> measure length" by simp
qed

fun collapse_spaces :: "string \<Rightarrow> string" where
  "collapse_spaces [] = []"
| "collapse_spaces (c # cs) =
     (if is_space c then
        (if cs \<noteq> [] \<and> is_space (hd cs) then collapse_spaces cs
         else CHR '' '' # collapse_spaces cs)
      else c # collapse_spaces cs)"

definition stripHtml :: "jsval \<Rightarrow> js_error + jsval" where
  "stripHtml html =
     (if \<not> truthy html then Inr (JStr [])
      else case html of
        JStr s \<Rightarrow> Inr (JStr (trim (collapse_spaces (strip_tags s))))
      | _ \<Rightarrow> Inl TypeError)"

text \<open>
  \<open>parseJobPosting(jobData)\<close>, for a \<open>jobData\<close> that is not \<open>null\<close> (its caller has read
  \<open>@type\<close> from it). The statements run in the order of the source, and the first
  exception ends the call: the conversions to a string in \<open>join\<close> (the location) and
  in the template literals (the salary), then \<open>extractExperience\<close> and \<open>stripHtml\<close> in
  the object literal. \<open>is_object v\<close> is \<open>typeof v === 'object'\<close>.
\<close>

definition is_object :: "jsval \<Rightarrow> bool" where
  "is_object v = (case v of JObj kvs \<Rightarrow> True | JArr xs \<Rightarrow> True | JNull \<Rightarrow> True | _ \<Rightarrow> False)"

definition parseJobPosting :: "string \<Rightarrow> jsval \<Rightarrow> js_error + job" where
  "parseJobPosting now jobData =
     (let hiringOrg = js_or (get_prop jobData ''hiringOrganization'') (JObj []);
          jobLocation = js_or (get_prop jobData ''jobLocation'') (JObj []);
          address = js_or (get_prop jobLocation ''address'') (JObj []);
          location =
            (case address of
               JStr s \<Rightarrow> Inr address
             | _ \<Rightarrow>
                 and_then
                   (all_results
                      (map js_to_string
                         (filter truthy [get_prop address ''addressLocality'',
                                         get_prop address ''addressRegion'',
                                         get_prop address ''addressCountry''])))
                   (\<lambda>parts. Inr (JStr (join_with '', '' parts))));
          baseSalary = get_prop jobData ''baseSalary'';
          amount = get_prop baseSalary ''value'';
          salary =
            (if truthy baseSalary \<and> truthy amount then
               (if is_object amount then
                  and_then (js_to_string (js_or (get_prop amount ''minValue'') (JStr []))) (\<lambda>lo.
                  and_then (js_to_string (js_or (get_prop amount ''maxValue'') (JStr []))) (\<lambda>hi.
                  and_then (js_to_string (js_or (get_prop baseSalary ''currency'') (JStr []))) (\<lambda>currency.
                    Inr (JStr (trim (lo @ '' - '' @ hi @ '' '' @ currency))))))
                else
                  and_then (js_to_string amount) (\<lambda>v.
                  and_then (js_to_string (js_or (get_prop baseSalary ''currency'') (JStr []))) (\<lambda>currency.
                    Inr (JStr (trim (v @ '' '' @ currency))))))
             else Inr (JStr ''Not specified''));
          description = get_prop jobData ''description''
      in and_then location (\<lambda>location.
         and_then salary (\<lambda>salary.
         and_then (extractExperience (js_or description (JStr []))) (\<lambda>years.
         and_then (if truthy description then stripHtml description else Inr (JStr [])) (\<lambda>plain.
           Inr \<lparr>title = js_or (get_prop jobData ''title'') (JStr []),
                company = js_or (get_prop hiringOrg ''name'') (JStr []),
                location = location,
                salary = salary,
                experience = years,
                jobType = js_or (get_prop jobData ''employmentType'') (JStr ''Not specified''),
                postedDate = js_or (get_prop jobData ''datePosted'') (JStr []),
                descriptionHtml = js_or description (JStr []),
                descriptionText = plain,
                url = js_or (get_prop jobData ''url'') (JStr []),
                scrapedAt = JStr now,
                tags = JUndefined, jobId = JUndefined\<rparr>)))))"

text \<open>
  The loops \<open>for (const item of ...) if (item['@type'] === 'JobPosting')
  jobs.push(parseJobPosting(item))\<close>. \<open>jobs\<close> is the array the pushes go to; an exception
  leaves the loop with the pushes made so far.
\<close>

fun push_postings :: "string \<Rightarrow> jsval list \<Rightarrow> job list \<Rightarrow> js_error option \<times> job list" where
  "push_postings now [] jobs = (None, jobs)"
| "push_postings now (item # rest) jobs =
     (if nullish item then (Some TypeError, jobs)
      else if get_prop item ''@type'' = JStr ''JobPosting'' then
        (case parseJobPosting now item of
           Inl e \<Rightarrow> (Some e, jobs)
         | Inr j \<Rightarrow> push_postings now rest (jobs @ [j]))
      else push_postings now rest jobs)"

text \<open>The \<open>ItemList\<close> loop: \<open>const item = listItem.item || listItem\<close>.\<close>

fun push_list_items :: "string \<Rightarrow> jsval list \<Rightarrow> job list \<Rightarrow> js_error option \<times> job list" where
  "push_list_items now [] jobs = (None, jobs)"
| "push_list_items now (listItem # rest) jobs =
     (if nullish listItem then (Some TypeError, jobs)
      else
        (let item = js_or (get_prop listItem ''item'') listItem
         in if get_prop item ''@type'' = JStr ''JobPosting'' then
              (case parseJobPosting now item of
                 Inl e \<Rightarrow> (Some e, jobs)
               | Inr j \<Rightarrow> push_list_items now rest (jobs @ [j]))
            else push_list_items now rest jobs))"

text \<open>
  The body of the inner \<open>try\<close> after \<open>JSON.parse\<close>: the four shapes, in the order of the
  \<open>if\<close> chain. It returns the exception that ended it, if any, and \<open>jobs\<close>.
\<close>

definition process_block :: "string \<Rightarrow> jsval \<Rightarrow> job list \<Rightarrow> js_error option \<times> job list" where
  "process_block now data jobs =
     (case data of
        JArr items \<Rightarrow> push_postings now items jobs
      | _ \<Rightarrow>
          if nullish data then (Some TypeError, jobs)
          else if get_prop data ''@type'' = JStr ''JobPosting'' then
            (case parseJobPosting now data of
               Inl e \<Rightarrow> (Some e, jobs)
             | Inr j \<Rightarrow> (None, jobs @ [j]))
          else if truthy (get_prop data ''@graph'') then
            (case iterate (get_prop data ''@graph'') of
               Inl e \<Rightarrow> (Some e, jobs)
             | Inr items \<Rightarrow> push_postings now items jobs)
          else if get_prop data ''@type'' = JStr ''ItemList'' \<and> truthy (get_prop data ''itemListElement'') then
            (case iterate (get_prop data ''itemListElement'') of
               Inl e \<Rightarrow> (Some e, jobs)
             | Inr listItems \<Rightarrow> push_list_items now listItems jobs)
          else (None, jobs))"

text \<open>
  The loop over the script blocks. A block is what \<open>JSON.parse\<close> made of its text, \<open>None\<close>
  when the text is not JSON. The \<open>catch\<close> of the inner \<open>try\<close> drops the exception and the
  loop goes on with the next block.
\<close>

fun blocks_loop :: "string \<Rightarrow> jsval option list \<Rightarrow> job list \<Rightarrow> job list" where
  "blocks_loop now [] jobs = jobs"
| "blocks_loop now (None # rest) jobs = blocks_loop now rest jobs"
| "blocks_loop now (Some data # rest) jobs = blocks_loop now rest (snd (process_block now data jobs))"

text \<open>
  \<open>extractJobsViaJsonLD(page)\<close>; \<open>None\<close> stands for \<open>page.$$eval\<close> raising, which the outer
  \<open>catch\<close> turns into the empty list.
\<close>

definition extractJobsViaJsonLD :: "string \<Rightarrow> jsval option list option \<Rightarrow> job list" where
  "extractJobsViaJsonLD now scripts =
     (case scripts of None \<Rightarrow> [] | Some blocks \<Rightarrow> blocks_loop now blocks [])"



















section \<open>Experience from structured requirements\<close>

text \<open>\<open>a ?? b\<close>: \<open>b\<close> when \<open>a\<close> is \<open>null\<close> or \<open>undefined\<close>.\<close>

definition nullish_or :: "jsval \<Rightarrow> jsval \<Rightarrow> jsval" where
  "nullish_or a b = (if nullish a then b else a)"

text \<open>
  \<open>Number(v)\<close>, \<open>None\<close> for \<open>NaN\<close>. Numbers are whole in this model, and a string counts as
  a number when it is a decimal integer literal (after trimming; the empty string is 0).
  An array or an object is first converted to a string (its \<open>valueOf\<close> returns the value
  itself, so \<open>toString\<close> decides), which raises where \<open>js_to_string\<close> does.
\<close>

definition digits_value :: "string \<Rightarrow> nat" where
  "digits_value ds = foldl (\<lambda>n c. 10 * n + (of_char c - 48)) 0 ds"

definition string_to_number :: "string \<Rightarrow> int option" where
  "string_to_number s =
     (let t = trim s
      in if t = [] then Some 0
         else if list_all is_digit t then Some (int (digits_value t))
         else if hd t = CHR ''-'' \<and> tl t \<noteq> [] \<and> list_all is_digit (tl t)
              then Some (- int (digits_value (tl t)))
         else if hd t = CHR ''+'' \<and> tl t \<noteq> [] \<and> list_all is_digit (tl t)
              then Some (int (digits_value (tl t)))
         else None)"

fun to_number :: "jsval \<Rightarrow> js_error + int option" where
  "to_number JUndefined = Inr None"
| "to_number JNull = Inr (Some 0)"
| "to_number (JBool b) = Inr (Some (if b then 1 else 0))"
| "to_number (JNum n) = Inr (Some n)"
| "to_number (JStr s) = Inr (string_to_number s)"
| "to_number (JArr xs) = and_then (js_to_string (JArr xs)) (\<lambda>s. Inr (string_to_number s))"
| "to_number (JObj kvs) = and_then (js_to_string (JObj kvs)) (\<lambda>s. Inr (string_to_number s))"

text \<open>
  \<open>Math.round((m / 12) * 10)\<close>, in exact arithmetic: \<open>Math.round\<close> rounds to the nearest
  integer, halves upwards, as \<open>round\<close> does. For a whole number of months the double
  arithmetic of JavaScript gives the same integer: \<open>m / 12 * 10\<close> is either exactly a half
  (then \<open>m / 12\<close> is a multiple of a quarter and both steps are exact) or at least a sixth
  away from one.
\<close>

definition years_tenths :: "int \<Rightarrow> int" where
  "years_tenths m = round ((of_int m / 12) * 10 :: rat)"

text \<open>How \<open>${years}\<close> prints \<open>k / 10\<close> for a whole \<open>k \<ge> 0\<close>: \<open>2.5\<close>, \<open>0.8\<close>, \<open>3\<close>.\<close>

definition show_tenths :: "int \<Rightarrow> string" where
  "show_tenths k =
     show_int (k div 10) @ (if k mod 10 = 0 then [] else CHR ''.'' # [digit_char (nat (k mod 10))])"

text \<open>
  \<open>normalizeExperienceFromJsonLd(experienceRequirements)\<close>; the only step that can raise
  is \<open>Number(months)\<close>.
\<close>

definition normalizeExperienceFromJsonLd :: "jsval \<Rightarrow> js_error + jsval" where
  "normalizeExperienceFromJsonLd experienceRequirements =
     (if \<not> truthy experienceRequirements then Inr (JStr [])
      else case experienceRequirements of
        JStr s \<Rightarrow> Inr (JStr (trim s))
      | _ \<Rightarrow>
          (let months = nullish_or (get_prop experienceRequirements ''monthsOfExperience'')
                          (nullish_or (get_prop experienceRequirements ''months'') JNull)
           in if nullish months then Inr (JStr [])
              else and_then (to_number months) (\<lambda>m.
                case m of
                  None \<Rightarrow> Inr (JStr [])
                | Some m \<Rightarrow>
                    if m \<le> 0 then Inr (JStr [])
                    else Inr (JStr (show_tenths (max 0 (years_tenths m)) @ '' years'')))))"

text \<open>The posting of the specification's scenario D, and one with no properties at all.\<close>

definition posting_months_30 :: jsval where
  "posting_months_30 =
     JObj [(''@type'', JStr ''JobPosting''),
           (''experienceRequirements'', JObj [(''monthsOfExperience'', JNum 30)])]"

definition posting_bare :: jsval where
  "posting_bare = JObj [(''@type'', JStr ''JobPosting'')]"

section \<open>Pagination and the crawl\<close>

text \<open>
  A URL as the handler uses it: the path, the \<open>pageNo\<close> query parameter
  (\<open>urlParams.get('pageNo')\<close>, \<open>None\<close> for \<open>null\<close>), and the rest (origin and the other
  parameters), which the handler only carries along.
\<close>

record url_parts =
  pathname :: string
  pageNoParam :: "string option"
  others :: string

text \<open>\<open>parseInt(s, 10)\<close>: leading white space, a sign, then digits; \<open>None\<close> is \<open>NaN\<close>.\<close>

definition js_parseInt :: "string \<Rightarrow> int option" where
  "js_parseInt s =
     (let t = dropWhile is_space s;
          neg = (t \<noteq> [] \<and> hd t = CHR ''-'');
          r = (if t \<noteq> [] \<and> (hd t = CHR ''-'' \<or> hd t = CHR ''+'') then tl t else t);
          ds = takeWhile is_digit r
      in if ds = [] then None
         else Some (if neg then - int (digits_value ds) else int (digits_value ds)))"

text \<open>\<open>s.replace(/\/$/, '')\<close> and the match of \<open>/-(\d+)$/\<close>: the digits after the last
  hyphen, when only digits follow it.\<close>

definition drop_trailing_slash :: "string \<Rightarrow> string" where
  "drop_trailing_slash s = (if s \<noteq> [] \<and> last s = CHR ''/'' then butlast s else s)"

definition page_suffix :: "string \<Rightarrow> string option" where
  "page_suffix s =
     (let ds = takeWhile is_digit (rev s); r = dropWhile is_digit (rev s)
      in if ds \<noteq> [] \<and> r \<noteq> [] \<and> hd r = CHR ''-'' then Some (rev ds) else None)"

text \<open>The page number the handler reads from \<open>page.url()\<close>.\<close>

definition current_page_no :: "url_parts \<Rightarrow> nat" where
  "current_page_no u =
     (let param = first_truthy [pageNoParam u];
          n = (case js_parseInt (if param \<noteq> [] then param else ''1'') of
                 None \<Rightarrow> 1
               | Some k \<Rightarrow> if k < 1 then 1 else nat k)
      in if param = [] then
           (case page_suffix (drop_trailing_slash (pathname u)) of
              None \<Rightarrow> n
            | Some ds \<Rightarrow> if digits_value ds \<ge> 1 then digits_value ds else n)
         else n)"

text \<open>The fallback next-page URL, rewritten from \<open>request.url\<close>.\<close>

definition rewrite_page :: "url_parts \<Rightarrow> nat \<Rightarrow> url_parts" where
  "rewrite_page u nextPageNo =
     (let p = drop_trailing_slash (pathname u);
          basePath = (case page_suffix p of
                        None \<Rightarrow> p
                      | Some ds \<Rightarrow> take (length p - (length ds + 1)) p)
      in u\<lparr>pathname := basePath @ ''-'' @ show_nat nextPageNo, pageNoParam := None\<rparr>)"

text \<open>
  What one request shows the handler: whether navigation fails on both attempts; the
  title and the first body text at each challenge check; \<open>page.url()\<close>; the markup and
  the JSON-LD blocks; the detail fetch for each job URL; the resolved target of the
  page's \<open>Next\<close> button, if it has one; and the time.
\<close>

record page_view =
  navigationFails :: bool
  challengeView :: "nat \<Rightarrow> string \<times> string"
  pageUrl :: url_parts
  markup :: "listing_dom option"
  scripts :: "jsval option list option"
  detail :: "jsval \<Rightarrow> outcome"
  nextHref :: "url_parts option"
  clock :: string

text \<open>The validated run parameters \<open>input.maxJobs\<close> and \<open>input.fullPageDetails\<close>.\<close>

record config =
  inputMaxJobs :: nat
  inputFullPageDetails :: bool

definition is_challenge :: "string \<times> string \<Rightarrow> bool" where
  "is_challenge v =
     (includes_str (fst v) ''Just a moment'' \<or> includes_str (fst v) ''Cloudflare'' \<or>
      includes_str (fst v) ''Security check'' \<or> includes_str (snd v) ''unusual traffic'' \<or>
      includes_str (snd v) ''Checking your browser'')"

text \<open>The challenge loop \<open>while (retryCount < maxRetries)\<close>; it returns \<open>retryCount\<close>.\<close>

function challenge_loop :: "(nat \<Rightarrow> string \<times> string) \<Rightarrow> nat \<Rightarrow> nat" where
  "challenge_loop view retryCount =
     (if retryCount < 3 then
        (if is_challenge (view retryCount) then challenge_loop view (retryCount + 1)
         else retryCount)
      else retryCount)"
  by pat_completeness auto
termination
  by (relation "measure (\<lambda>(view, retryCount). 3 - retryCount)") auto

declare challenge_loop.simps [simp del]

text \<open>\<open>maxJobs === 0 ? 50 : Math.ceil(maxJobs / 20)\<close>.\<close>

definition max_pages :: "nat \<Rightarrow> nat" where
  "max_pages q = (if q = 0 then 50 else (q + 19) div 20)"

definition next_page_url :: "page_view \<Rightarrow> url_parts \<Rightarrow> nat \<Rightarrow> url_parts" where
  "next_page_url page requestUrl nextPageNo =
     (case nextHref page of Some h \<Rightarrow> h | None \<Rightarrow> rewrite_page requestUrl nextPageNo)"

text \<open>A queued request: its URL and its \<open>uniqueKey\<close> (the URL with the page number it
  was queued under; the start request's key is its URL alone).\<close>

record request =
  reqUrl :: url_parts
  uniqueKey :: "url_parts \<times> nat option"

text \<open>
  The end of \<open>requestHandler\<close>, after the batch is saved: the quota check and the
  pagination decision. \<open>st\<close> is the state and \<open>jobsToSave\<close> the batch that
  \<open>save_batch\<close> returned. The result is the request handed to \<open>crawler.addRequests\<close>,
  if any.
\<close>

definition decide_next ::
  "config \<Rightarrow> page_view \<Rightarrow> url_parts \<Rightarrow> nat \<Rightarrow> run_state \<Rightarrow> job list \<Rightarrow> request option" where
  "decide_next cfg page requestUrl currentPageNo st jobsToSave =
     (if inputMaxJobs cfg > 0 \<and> totalJobsScraped st \<ge> inputMaxJobs cfg then None
      else if inputMaxJobs cfg = 0 \<or> totalJobsScraped st < inputMaxJobs cfg then
        (let maxPages = max_pages (inputMaxJobs cfg);
             nextPageNo = currentPageNo + 1
         in if nextPageNo \<le> maxPages \<and> jobsToSave \<noteq> [] then
              (let nextPageUrl = next_page_url page requestUrl nextPageNo
               in Some \<lparr>reqUrl = nextPageUrl, uniqueKey = (nextPageUrl, Some nextPageNo)\<rparr>)
            else None)
      else None)"

text \<open>
  \<open>requestHandler\<close>. It returns the run state and the request it queues, if any. Every
  \<open>return\<close> and the \<open>catch\<close> of the handler end without a request.
\<close>

definition requestHandler ::
  "config \<Rightarrow> run_state \<Rightarrow> url_parts \<Rightarrow> page_view \<Rightarrow> run_state \<times> request option" where
  "requestHandler cfg st0 requestUrl page =
     (let st = st0\<lparr>pagesProcessed := pagesProcessed st0 + 1\<rparr>
      in if navigationFails page then (st, None)
         else if challenge_loop (challengeView page) 0 \<ge> 3 then (st, None)
         else
           (let currentPageNo = current_page_no (pageUrl page);
                htmlJobs = extractJobDataViaHTML (clock page) (markup page);
                st = (if htmlJobs \<noteq> [] then st\<lparr>extractionMethod := ''HTML Parsing (Cheerio)''\<rparr>
                      else st);
                jobs = (if htmlJobs = [] then extractJobsViaJsonLD (clock page) (scripts page)
                        else htmlJobs);
                st = (if htmlJobs = [] \<and> jobs \<noteq> [] then st\<lparr>extractionMethod := ''JSON-LD''\<rparr>
                      else st)
            in if jobs \<noteq> [] then
                 (let saved = save_batch (inputMaxJobs cfg) (inputFullPageDetails cfg) (detail page) st jobs
                  in (fst saved, decide_next cfg page requestUrl currentPageNo (fst saved) (snd saved)))
               else (st, None)))"

text \<open>\<open>Math.min(200, maxJobs === 0 ? 200 : Math.ceil(maxJobs / 20) + 5)\<close>.\<close>

definition maxRequestsPerCrawl :: "nat \<Rightarrow> nat" where
  "maxRequestsPerCrawl q = min 200 (if q = 0 then 200 else (q + 19) div 20 + 5)"

text \<open>
  The crawler: it takes requests from the queue until the queue is empty or
  \<open>maxRequestsPerCrawl\<close> requests have been handled (\<open>budget\<close> counts those left). The
  queue refuses a request whose \<open>uniqueKey\<close> it has seen. \<open>site\<close> is the web site: the
  view each URL gives.
\<close>

fun crawl ::
  "config \<Rightarrow> (url_parts \<Rightarrow> page_view) \<Rightarrow> nat \<Rightarrow> run_state \<Rightarrow> request list \<Rightarrow>
   (url_parts \<times> nat option) list \<Rightarrow> run_state" where
  "crawl cfg site 0 st pending keys = st"
| "crawl cfg site (Suc budget) st [] keys = st"
| "crawl cfg site (Suc budget) st (r # pending) keys =
     (case requestHandler cfg st (reqUrl r) (site (reqUrl r)) of
        (st', None) \<Rightarrow> crawl cfg site budget st' pending keys
      | (st', Some r') \<Rightarrow>
          if uniqueKey r' \<in> set keys then crawl cfg site budget st' pending keys
          else crawl cfg site budget st' (pending @ [r']) (keys @ [uniqueKey r']))"

definition run_crawler :: "config \<Rightarrow> (url_parts \<Rightarrow> page_view) \<Rightarrow> url_parts \<Rightarrow> run_state" where
  "run_crawler cfg site searchUrl =
     crawl cfg site (maxRequestsPerCrawl (inputMaxJobs cfg)) initial_state
       [\<lparr>reqUrl = searchUrl, uniqueKey = (searchUrl, None)\<rparr>] [(searchUrl, None)]"

text \<open>
  A site numbers its pages faithfully (up to the page ceiling of quota \<open>q\<close>) when, for
  every page below the ceiling, the page served at its next-page URL shows the following
  page number.
\<close>

definition faithful_numbering :: "nat \<Rightarrow> (url_parts \<Rightarrow> page_view) \<Rightarrow> bool" where
  "faithful_numbering q site =
     (\<forall>u. current_page_no (pageUrl (site u)) + 1 \<le> max_pages q \<longrightarrow>
          current_page_no
            (pageUrl (site (next_page_url (site u) u (current_page_no (pageUrl (site u)) + 1)))) =
          current_page_no (pageUrl (site u)) + 1)"

text \<open>
  Two sites for concrete runs. On \<open>numbered_site\<close> the start page has no \<open>Next\<close> button
  and every other URL serves page 2. On \<open>unnumbered_site\<close> every page has one new job and
  a \<open>Next\<close> button whose target differs only in a query parameter, so that no URL shows
  a page number.
\<close>

definition one_job_page :: "url_parts \<Rightarrow> url_parts option \<Rightarrow> page_view" where
  "one_job_page shown next =
     \<lparr>navigationFails = False, challengeView = (\<lambda>n. ([], [])), pageUrl = shown,
      markup = Some \<lparr>jobElements = [plain_card ''Job'' (Some (''/job-listings-'' @ pathname shown @ others shown))],
                     fallbackElements = [], jobLinkEls = []\<rparr>,
      scripts = Some [], detail = (\<lambda>u. NoContent), nextHref = next, clock = example_now\<rparr>"

definition start_url :: url_parts where
  "start_url = \<lparr>pathname = ''/sales-jobs'', pageNoParam = None, others = []\<rparr>"

definition numbered_site :: "url_parts \<Rightarrow> page_view" where
  "numbered_site u =
     (if pathname u = ''/sales-jobs'' then one_job_page u None
      else one_job_page \<lparr>pathname = ''/sales-jobs-2'', pageNoParam = None, others = []\<rparr> None)"

definition unnumbered_site :: "url_parts \<Rightarrow> page_view" where
  "unnumbered_site u = one_job_page u (Some (u\<lparr>others := others u @ ''x''\<rparr>))"

definition quota_40 :: config where
  "quota_40 = \<lparr>inputMaxJobs = 40, inputFullPageDetails = True\<rparr>"

section \<open>Detail fetch over HTTP (the variant with a fast path)\<close>

text \<open>
  \<open>fetchFullDescription\<close> of the variant that fetches detail pages with an HTTP client and
  falls back to the browser session's request. HTTP and the parser are outside the
  program: a request either raises (with a message) or answers with a status and a
  document, and a document is what the function's queries give on it: the title, the body
  text, the section found by the primary selector, the first \<open>JobPosting\<close> of its JSON-LD
  as \<open>parseJobPostingJsonLdCandidate\<close> returns it, the section found by the longer
  selector list, and the three probes for experience, salary and job type.
\<close>

record description =
  dHtml :: jsval
  dText :: jsval

record detail_doc =
  docTitle :: string
  bodyText :: string
  primarySection :: "description option"
  jsonLdJob :: "job option"
  cascadeSection :: "description option"
  probeExperience :: string
  probeSalary :: string
  probeJobType :: string

datatype http_result = Threw string | Response nat detail_doc

text \<open>
  The two requests of one fetch, and what \<open>fetchDescriptionViaPage\<close> would give when the
  document holds no description.
\<close>

record detail_env =
  fastPath :: http_result
  sessionPath :: http_result
  pageFallback :: "description option"

definition block_status :: "nat \<Rightarrow> bool" where
  "block_status s = (s = 403 \<or> s = 503 \<or> s = 429)"

definition challenge_title :: "string \<Rightarrow> bool" where
  "challenge_title t =
     (includes_str t ''Just a moment'' \<or> includes_str t ''Cloudflare'' \<or>
      includes_str t ''Security check'')"

definition isLikelyNotFoundPage :: "string \<Rightarrow> string \<Rightarrow> bool" where
  "isLikelyNotFoundPage titleText body =
     (includes_str (toLowerCase titleText) ''404'' \<or>
      includes_str (toLowerCase body) ''this page could not be found'' \<or>
      includes_str (toLowerCase body) ''page could not be found'')"

text \<open>The part of the function after the body is loaded.\<close>

definition describe_doc :: "detail_doc \<Rightarrow> description option \<Rightarrow> outcome" where
  "describe_doc doc viaPage =
     (if challenge_title (docTitle doc) then Blocked
      else if isLikelyNotFoundPage (docTitle doc) (bodyText doc) then NoContent
      else
        (let descriptionFromHtml =
               (case primarySection doc of
                  Some d \<Rightarrow> if truthy (dText d) then Some d else None
                | None \<Rightarrow> None);
             descriptionFromJsonLd =
               (case jsonLdJob doc of
                  Some j \<Rightarrow> if truthy (descriptionText j)
                            then Some \<lparr>dHtml = descriptionHtml j, dText = descriptionText j\<rparr>
                            else None
                | None \<Rightarrow> None);
             found = (case descriptionFromHtml of Some d \<Rightarrow> Some d | None \<Rightarrow> descriptionFromJsonLd);
             found = (case found of Some d \<Rightarrow> Some d | None \<Rightarrow> cascadeSection doc);
             found = (case found of Some d \<Rightarrow> Some d | None \<Rightarrow> viaPage)
         in case found of
              None \<Rightarrow> NoContent
            | Some d \<Rightarrow>
               (let structured = (\<lambda>field. case jsonLdJob doc of Some j \<Rightarrow> field j | None \<Rightarrow> JUndefined)
                in Ok \<lparr>title = js_or (structured title) JNull,
                       company = js_or (structured company) JNull,
                       location = js_or (structured location) JNull,
                       salary = js_or (JStr (probeSalary doc)) (js_or (structured salary) JNull),
                       experience = js_or (JStr (probeExperience doc)) (js_or (structured experience) JNull),
                       jobType = js_or (JStr (probeJobType doc)) (js_or (structured jobType) JNull),
                       postedDate = js_or (structured postedDate) JNull,
                       descriptionHtml = dHtml d,
                       descriptionText = dText d,
                       url = JUndefined,
                       scrapedAt = JUndefined,
                       tags = js_or (structured tags) JNull,
                       jobId = js_or (structured jobId) JNull\<rparr>)))"

text \<open>
  The session request, reached from the \<open>catch\<close> of the fast path. When it raises, the
  outer \<open>catch\<close> looks at the message.
\<close>

definition session_request :: "detail_env \<Rightarrow> outcome" where
  "session_request env =
     (case sessionPath env of
        Threw message \<Rightarrow>
          if includes_str message ''403'' \<or> includes_str message ''503'' then Blocked else NoContent
      | Response status doc \<Rightarrow>
          if block_status status then Blocked
          else if status \<noteq> 200 then NoContent
          else describe_doc doc (pageFallback env))"

text \<open>
  \<open>fetchFullDescription\<close>: the fast path first. A block status there raises
  \<open>blocked_http_...\<close> inside the \<open>try\<close>, which, like a transport failure, is caught and
  answered by the session request.
\<close>

definition fetchFullDescription :: "detail_env \<Rightarrow> outcome" where
  "fetchFullDescription env =
     (case fastPath env of
        Threw message \<Rightarrow> session_request env
      | Response status doc \<Rightarrow>
          if block_status status then session_request env
          else if status \<noteq> 200 then NoContent
          else describe_doc doc (pageFallback env))"

text \<open>The document a fetch goes on to read: the one answered with status 200.\<close>

definition fetched_doc :: "detail_env \<Rightarrow> detail_doc option" where
  "fetched_doc env =
     (let viaSession = (case sessionPath env of
                          Response status doc \<Rightarrow> if status = 200 then Some doc else None
                        | Threw message \<Rightarrow> None)
      in case fastPath env of
           Threw message \<Rightarrow> viaSession
         | Response status doc \<Rightarrow>
             if block_status status then viaSession
             else if status = 200 then Some doc else None)"

text \<open>Whether the fetch gets as far as the session request.\<close>

definition reaches_session :: "detail_env \<Rightarrow> bool" where
  "reaches_session env =
     (case fastPath env of Threw message \<Rightarrow> True | Response status doc \<Rightarrow> block_status status)"

section \<open>Enrichment in the HTTP variant\<close>

text \<open>The merge of one record with the fetched fields: \<open>{ ...job, title: fullDesc.title || job.title, ... }\<close>.\<close>

definition merge_detail :: "job \<Rightarrow> job \<Rightarrow> job" where
  "merge_detail j fullDesc =
     j\<lparr>title := js_or (title fullDesc) (title j),
       company := js_or (company fullDesc) (company j),
       location := js_or (location fullDesc) (location j),
       postedDate := js_or (postedDate fullDesc) (postedDate j),
       descriptionHtml := js_or (descriptionHtml fullDesc) (descriptionHtml j),
       descriptionText := js_or (descriptionText fullDesc) (descriptionText j),
       experience := js_or (experience fullDesc) (experience j),
       salary := js_or (salary fullDesc) (salary j),
       jobType := js_or (jobType fullDesc) (jobType j),
       tags := js_or (tags fullDesc) (tags j),
       jobId := js_or (jobId fullDesc) (jobId j)\<rparr>"

text \<open>
  The function mapped over a batch; it returns the record and what it adds to
  \<open>blockedCount\<close>.
\<close>

definition enrich_job :: "(jsval \<Rightarrow> outcome) \<Rightarrow> job \<Rightarrow> job \<times> nat" where
  "enrich_job fetch j =
     (if \<not> truthy (url j) then (j, 0)
      else case fetch (url j) of
        Blocked \<Rightarrow> (j, 1)
      | NoContent \<Rightarrow> (j, 0)
      | Ok fullDesc \<Rightarrow>
          if truthy (descriptionText fullDesc) \<or> truthy (descriptionHtml fullDesc)
          then (merge_detail j fullDesc, 0)
          else (j, 0))"

text \<open>The loop over batches of \<open>batchSize\<close> jobs; results join in batch order.\<close>

function enrich_batches ::
  "(jsval \<Rightarrow> outcome) \<Rightarrow> nat \<Rightarrow> job list \<Rightarrow> job list \<Rightarrow> nat \<Rightarrow> job list \<times> nat" where
  "enrich_batches fetch batchSize jobs enrichedJobs blockedCount =
     (if jobs = [] \<or> batchSize = 0 then (enrichedJobs, blockedCount)
      else
        (let batchResults = map (enrich_job fetch) (take batchSize jobs)
         in enrich_batches fetch batchSize (drop batchSize jobs)
              (enrichedJobs @ map fst batchResults)
              (blockedCount + sum_list (map snd batchResults))))"
  by pat_completeness auto
termination
  by (relation "measure (\<lambda>(fetch, batchSize, jobs, enrichedJobs, blockedCount). length jobs)") auto

declare enrich_batches.simps [simp del]

text \<open>
  \<open>enrichJobsWithFullDescriptions(jobs, page, proxyUrl, maxConcurrency)\<close> of this variant.
  With a batch size of zero the loop over a non-empty list never ends: \<open>None\<close>. The handler
  calls it with the default, 20.
\<close>

definition enrichJobsWithFullDescriptions_http ::
  "(jsval \<Rightarrow> outcome) \<Rightarrow> job list \<Rightarrow> nat \<Rightarrow> (job list \<times> nat) option" where
  "enrichJobsWithFullDescriptions_http fetch jobs maxConcurrency =
     (if jobs = [] then Some (jobs, 0)
      else if maxConcurrency = 0 then None
      else Some (enrich_batches fetch maxConcurrency jobs [] 0))"


definition full_doc :: detail_doc where
  "full_doc =
     \<lparr>docTitle = ''Sales Manager - Naukri.com'', bodyText = ''Sales Manager Full text'',
      primarySection = Some \<lparr>dHtml = JStr ''<p>Full text</p>'', dText = JStr ''Full text''\<rparr>,
      jsonLdJob = None, cascadeSection = None,
      probeExperience = ''3 years'', probeSalary = [], probeJobType = []\<rparr>"

definition challenge_doc :: detail_doc where
  "challenge_doc = full_doc\<lparr>docTitle := ''Just a moment...''\<rparr>"

definition listed_job :: job where
  "listed_job = (listing_job ''Sales Manager'' ''https://www.naukri.com/job-listings-1'')
     \<lparr>experience := JStr ''2-5 Yrs'', descriptionText := JStr ''snippet''\<rparr>"

section \<open>HTML fragment sanitizer\<close>

text \<open>
  \<open>sanitizeHtmlFragment\<close> parses the fragment into the children of a root element,
  transforms that tree and serialises the root's content. Parser and serialiser belong to
  the DOM library; the transformation is the program's. A node is a text, a comment or
  an element with its tag name (lower case, as the parser gives it for HTML), its
  attributes and its children.
\<close>

datatype node = Text string | Comment string | Element string "(string \<times> string) list" "node list"

definition noise_tags :: "string list" where
  "noise_tags = [''script'', ''style'', ''noscript'', ''svg'', ''img'', ''iframe'', ''canvas'',
                 ''form'', ''input'', ''button'', ''link'', ''meta'']"

definition allowedTags :: "string list" where
  "allowedTags = [''p'', ''ul'', ''ol'', ''li'', ''br'', ''strong'', ''b'', ''em'', ''i'',
                  ''h1'', ''h2'', ''h3'', ''h4'', ''h5'', ''h6'', ''a'']"

text \<open>\<open>root.find('script, style, ...').remove()\<close>: the matching elements go, with all inside
  them.\<close>

fun remove_noise :: "node \<Rightarrow> node list" where
  "remove_noise (Text s) = [Text s]"
| "remove_noise (Comment s) = [Comment s]"
| "remove_noise (Element t attrs cs) =
     (if t \<in> set noise_tags then [] else [Element t attrs (concat (map remove_noise cs))])"

text \<open>
  The first \<open>each\<close>: an element whose tag is not allowed is replaced by its contents. The
  elements are visited in document order, so the contents are visited after it and
  unwrapped in turn.
\<close>

fun unwrap :: "node \<Rightarrow> node list" where
  "unwrap (Text s) = [Text s]"
| "unwrap (Comment s) = [Comment s]"
| "unwrap (Element t attrs cs) =
     (let tag = toLowerCase t
      in if tag = [] \<or> tag \<in> set allowedTags then [Element t attrs (concat (map unwrap cs))]
         else concat (map unwrap cs))"

text \<open>The second \<open>each\<close>: every attribute but \<open>href\<close> is removed.\<close>

fun strip_attributes :: "node \<Rightarrow> node" where
  "strip_attributes (Text s) = Text s"
| "strip_attributes (Comment s) = Comment s"
| "strip_attributes (Element t attrs cs) =
     Element t (filter (\<lambda>a. toLowerCase (fst a) = ''href'') attrs) (map strip_attributes cs)"

text \<open>\<open>$el.text()\<close>: the texts inside the element, concatenated; \<open>$el.children()\<close>: its
  element children.\<close>

fun node_text :: "node \<Rightarrow> string" where
  "node_text (Text s) = s"
| "node_text (Comment s) = []"
| "node_text (Element t attrs cs) = concat (map node_text cs)"

fun is_element :: "node \<Rightarrow> bool" where
  "is_element (Element t attrs cs) = True"
| "is_element n = False"

text \<open>
  The third \<open>each\<close>: an element with no element child and only white space as text is
  removed. The elements are visited once, in document order: each is tested before any
  element inside it has been visited, so on its content as the second pass left it, and
  an element is not looked at again after its children are gone.
\<close>

fun remove_empty :: "node \<Rightarrow> node list" where
  "remove_empty (Text s) = [Text s]"
| "remove_empty (Comment s) = [Comment s]"
| "remove_empty (Element t attrs cs) =
     (if \<not> list_ex is_element cs \<and> trim (concat (map node_text cs)) = [] then []
      else [Element t attrs (concat (map remove_empty cs))])"

text \<open>The transformation of the root's children.\<close>

definition sanitize_nodes :: "node list \<Rightarrow> node list" where
  "sanitize_nodes ns =
     concat (map remove_empty
       (map strip_attributes (concat (map unwrap (concat (map remove_noise ns))))))"

text \<open>What the claim about tags and attributes says of a tree.\<close>

fun tags_allowed :: "node \<Rightarrow> bool" where
  "tags_allowed (Text s) = True"
| "tags_allowed (Comment s) = True"
| "tags_allowed (Element t attrs cs) =
     (toLowerCase t \<in> set allowedTags \<and> list_all tags_allowed cs)"

fun only_href :: "node \<Rightarrow> bool" where
  "only_href (Text s) = True"
| "only_href (Comment s) = True"
| "only_href (Element t attrs cs) =
     (list_all (\<lambda>a. toLowerCase (fst a) = ''href'') attrs \<and> list_all only_href cs)"

fun named :: "node \<Rightarrow> bool" where
  "named (Text s) = True"
| "named (Comment s) = True"
| "named (Element t attrs cs) = (t \<noteq> [] \<and> list_all named cs)"

section \<open>Properties of the controller\<close>

lemma show_nat_small: "n < 10 \<Longrightarrow> show_nat n = [digit_char n]"
  by (simp add: show_nat.simps)

lemma set_add_set: "set (set_add s v) = insert v (set s)"
  by (auto simp: set_add_def set_has_def)





lemma filter_unique_only_adds_kept:
  "u \<in> set (snd (filter_unique seen js)) \<Longrightarrow> u \<notin> set seen \<Longrightarrow>
   \<exists>j \<in> set (fst (filter_unique seen js)). truthy (url j) \<and> url j = u"
proof (induction js arbitrary: seen)
  case Nil
  then show ?case by simp
next
  case (Cons k js)
  show ?case
  proof (cases "truthy (url k) \<and> \<not> set_has seen (url k)")
    case False
    then show ?thesis using Cons by (auto simp: split_beta)
  next
    case True
    show ?thesis
    proof (cases "u = url k")
      case True
      then show ?thesis using \<open>truthy (url k) \<and> \<not> set_has seen (url k)\<close> by (auto simp: split_beta)
    next
      case False
      then have "u \<notin> set (set_add seen (url k))"
        using Cons.prems(2) by (simp add: set_add_set)
      moreover have "u \<in> set (snd (filter_unique (set_add seen (url k)) js))"
        using Cons.prems(1) True by (simp add: split_beta)
      ultimately show ?thesis using Cons.IH True by (auto simp: split_beta)
    qed
  qed
qed
























section \<open>Properties of the markup extractor\<close>

lemma extractJobFromElement_url_str:
  "extractJobFromElement now el ft fu = Some j \<Longrightarrow> \<exists>u. url j = JStr u"
  by (auto simp: extractJobFromElement_def Let_def split_beta split: if_splits)

lemma extractJobFromElement_title:
  "extractJobFromElement now el ft fu = Some j \<Longrightarrow> \<exists>t. title j = JStr t \<and> t \<noteq> []"
  by (auto simp: extractJobFromElement_def Let_def split_beta split: if_splits)

lemma push_job_ok:
  assumes "acc_ok acc" and "\<And>j. r = Some j \<Longrightarrow> \<exists>u. url j = JStr u"
  shows "acc_ok (push_job r acc)"
proof (cases r)
  case None
  then show ?thesis using assms(1) by (simp add: push_job_def)
next
  case (Some j)
  then obtain u where u: "url j = JStr u" using assms(2) by blast
  show ?thesis
  proof (cases "truthy (url j) \<and> \<not> set_has (snd acc) (url j)")
    case False
    then show ?thesis using assms(1) Some by (auto simp: push_job_def)
  next
    case True
    then have "u \<noteq> []" and "JStr u \<notin> set (snd acc)"
      using u by (simp_all add: set_has_def)
    then show ?thesis using assms(1) Some True u
      by (auto simp: push_job_def acc_ok_def set_add_def)
  qed
qed

lemma card_step_ok: "acc_ok acc \<Longrightarrow> acc_ok (card_step now acc el)"
  unfolding card_step_def by (rule push_job_ok) (auto dest: extractJobFromElement_url_str)

lemma card_fold_ok: "acc_ok acc \<Longrightarrow> acc_ok (foldl (card_step now) acc els)"
  by (induction els arbitrary: acc) (simp_all add: card_step_ok)

lemma container_step_cards:
  "container_step now acc c = foldl (card_step now) acc (container_cards c)"
  by (simp add: container_step_def container_cards_def)

lemma container_fold_cards:
  "foldl (container_step now) acc cs = foldl (card_step now) acc (concat (map container_cards cs))"
  by (induction cs arbitrary: acc) (simp_all add: container_step_cards)

lemma fallback_loop_ok: "acc_ok acc \<Longrightarrow> acc_ok (fallback_loop now gs acc)"
  by (induction gs arbitrary: acc) (simp_all add: Let_def container_fold_cards card_fold_ok)

lemma link_loop_ok: "acc_ok acc \<Longrightarrow> acc_ok (link_loop now ls acc)"
proof (induction ls arbitrary: acc)
  case Nil
  then show ?case by simp
next
  case (Cons l ls)
  have "acc_ok (push_job (extractJobFromElement now el ft fu) acc)" for el ft fu
    using Cons.prems by (rule push_job_ok) (auto dest: extractJobFromElement_url_str)
  then show ?case using Cons by (simp add: Let_def)
qed

lemma acc_ok_empty: "acc_ok ([], [])"
  by (simp add: acc_ok_def)

lemma extractJobDataViaHTML_ok:
  "\<exists>seen. acc_ok (extractJobDataViaHTML now page, seen)"
proof (cases page)
  case None
  then show ?thesis using acc_ok_empty by (auto simp: extractJobDataViaHTML_def)
next
  case (Some doc)
  define acc where "acc = (if jobElements doc = []
      then fallback_loop now (fallbackElements doc) ([], [])
      else foldl (card_step now) ([], []) (jobElements doc))"
  have ok: "acc_ok acc"
    unfolding acc_def using acc_ok_empty by (simp add: fallback_loop_ok card_fold_ok)
  define acc2 where "acc2 = (if fst acc = [] then link_loop now (jobLinkEls doc) acc else acc)"
  have "acc_ok acc2" unfolding acc2_def using ok by (simp add: link_loop_ok)
  moreover have "extractJobDataViaHTML now page = fst acc2"
    using Some by (simp add: extractJobDataViaHTML_def acc_def acc2_def Let_def)
  ultimately have "acc_ok (extractJobDataViaHTML now page, snd acc2)" by simp
  then show ?thesis by blast
qed

lemma first_by_url_snoc:
  "first_by_url (js @ [j]) = first_by_url js @ (if url j \<in> url ` set js then [] else [j])"
proof -
  have same: "i \<in> set [0..<length js] \<Longrightarrow>
      (url ((js @ [j]) ! i) \<notin> url ` set (take i (js @ [j]))) = (url (js ! i) \<notin> url ` set (take i js))" for i
    by (simp add: nth_append)
  have "filter (\<lambda>i. url ((js @ [j]) ! i) \<notin> url ` set (take i (js @ [j]))) [0..<length js] =
        filter (\<lambda>i. url (js ! i) \<notin> url ` set (take i js)) [0..<length js]"
    by (rule filter_cong) (simp_all add: nth_append)
  moreover have "map (\<lambda>i. (js @ [j]) ! i) (filter (\<lambda>i. url (js ! i) \<notin> url ` set (take i js)) [0..<length js]) =
        map (\<lambda>i. js ! i) (filter (\<lambda>i. url (js ! i) \<notin> url ` set (take i js)) [0..<length js])"
    by (rule map_cong) (simp_all add: nth_append)
  ultimately show ?thesis by (simp add: first_by_url_def)
qed

lemma first_by_url_Nil: "first_by_url [] = []"
  by (simp add: first_by_url_def)

lemma first_by_url_urls: "url ` set (first_by_url js) = url ` set js"
  by (induction js rule: rev_induct) (auto simp: first_by_url_Nil first_by_url_snoc)

lemma first_by_url_distinct: "distinct (map url (first_by_url js))"
proof (induction js rule: rev_induct)
  case Nil
  then show ?case by (simp add: first_by_url_Nil)
next
  case (snoc j js)
  have "url j \<notin> url ` set js \<Longrightarrow> url j \<notin> url ` set (first_by_url js)"
    by (simp add: first_by_url_urls)
  then show ?case using snoc by (auto simp: first_by_url_snoc)
qed

lemma first_by_url_subset: "set (first_by_url js) \<subseteq> set js"
  by (induction js rule: rev_induct) (auto simp: first_by_url_Nil first_by_url_snoc)

lemma url_records_Cons:
  "url_records now (el # els) =
     (case extractJobFromElement now el [] [] of
        None \<Rightarrow> url_records now els
      | Some j \<Rightarrow> if truthy (url j) then j # url_records now els else url_records now els)"
  by (simp add: url_records_def List.map_filter_simps split: option.splits)

lemma card_fold_first:
  assumes "snd acc = map url (fst acc)" and "fst acc = first_by_url pre"
  shows "fst (foldl (card_step now) acc els) = first_by_url (pre @ url_records now els) \<and>
         snd (foldl (card_step now) acc els) = map url (fst (foldl (card_step now) acc els))"
  using assms
proof (induction els arbitrary: acc pre)
  case Nil
  then show ?case by (simp add: url_records_def List.map_filter_simps)
next
  case (Cons el els)
  show ?case
  proof (cases "extractJobFromElement now el [] []")
    case None
    then have "card_step now acc el = acc" by (simp add: card_step_def push_job_def)
    then show ?thesis using Cons.IH [OF Cons.prems] None by (simp add: url_records_Cons)
  next
    case (Some j)
    obtain u where u: "url j = JStr u" using extractJobFromElement_url_str [OF Some] by blast
    show ?thesis
    proof (cases "truthy (url j)")
      case False
      then have "card_step now acc el = acc" using Some by (simp add: card_step_def push_job_def)
      then show ?thesis using Cons.IH [OF Cons.prems] Some False by (simp add: url_records_Cons)
    next
      case True
      have has: "set_has (snd acc) (url j) = (url j \<in> url ` set pre)"
        using Cons.prems u first_by_url_urls [of pre] by (simp add: set_has_def)
      let ?acc' = "card_step now acc el"
      have acc': "?acc' = (if url j \<in> url ` set pre then acc else (fst acc @ [j], snd acc @ [url j]))"
        using Some True has by (simp add: card_step_def push_job_def set_add_def)
      have 1: "snd ?acc' = map url (fst ?acc')" using acc' Cons.prems(1) by simp
      have 2: "fst ?acc' = first_by_url (pre @ [j])"
        using acc' Cons.prems(2) by (simp add: first_by_url_snoc)
      show ?thesis using Cons.IH [OF 1 2] Some True by (simp add: url_records_Cons)
    qed
  qed
qed

lemma card_fold_jobs:
  "fst (foldl (card_step now) ([], []) els) = card_list_jobs now els"
  using card_fold_first [of "([], [])" "[]" now els]
  by (simp add: first_by_url_Nil card_list_jobs_def)

lemma card_fold_seen_empty:
  "fst (foldl (card_step now) ([], []) els) = [] \<Longrightarrow> foldl (card_step now) ([], []) els = ([], [])"
  using card_fold_first [of "([], [])" "[]" now els]
  by (simp add: first_by_url_Nil prod_eq_iff)

lemma fallback_loop_jobs:
  "fst (fallback_loop now gs ([], [])) =
     (case List.find (\<lambda>g. card_list_jobs now (concat (map container_cards g)) \<noteq> []) gs of
        Some g \<Rightarrow> card_list_jobs now (concat (map container_cards g))
      | None \<Rightarrow> [])"
proof (induction gs)
  case Nil
  then show ?case by simp
next
  case (Cons g gs)
  let ?acc' = "foldl (card_step now) ([], []) (concat (map container_cards g))"
  have jobs: "fst ?acc' = card_list_jobs now (concat (map container_cards g))"
    by (rule card_fold_jobs)
  show ?case
  proof (cases "fst ?acc' = []")
    case True
    then have "?acc' = ([], [])" by (rule card_fold_seen_empty)
    then show ?thesis using Cons True jobs by (simp add: Let_def container_fold_cards)
  next
    case False
    then have "g \<noteq> []" by auto
    then show ?thesis using False jobs by (simp add: Let_def container_fold_cards)
  qed
qed

lemma tuple_path_jobs:
  "fst (if jobElements doc = [] then fallback_loop now (fallbackElements doc) ([], [])
        else foldl (card_step now) ([], []) (jobElements doc)) = tuple_jobs now doc"
  by (simp add: tuple_jobs_def fallback_loop_jobs card_fold_jobs)

lemma absolute_url_nonempty: "absolute_url h \<noteq> []"
  by (auto simp: absolute_url_def startsWith_def)

lemma extractJobFromElement_url_found:
  assumes "first_href (urlHrefs el) \<noteq> []"
  shows "\<exists>j. extractJobFromElement now el ft fu = Some j \<and> url j = JStr (first_href (urlHrefs el))"
  using assms by (simp add: extractJobFromElement_def Let_def)

lemma link_record_found:
  assumes "first_truthy [linkHref l] \<noteq> []" and "first_href (urlHrefs (link_card l)) = u" and "u \<noteq> []"
  shows "\<exists>j. link_record now l = Some j \<and> url j = JStr u"
  using assms extractJobFromElement_url_found [of "link_card l" now]
  by (simp add: link_record_def)

lemma own_first_record:
  assumes "own_first k"
  shows "\<exists>j. link_record now k = Some j \<and> url j = JStr (link_url k)"
proof -
  have "link_url k \<noteq> []" by (simp add: link_url_def absolute_url_nonempty)
  then show ?thesis using assms link_record_found [of k "link_url k" now]
    by (simp add: own_first_def)
qed

lemma link_records_snoc:
  "link_records now (ls @ [l]) =
     link_records now ls @ (case link_record now l of None \<Rightarrow> [] | Some j \<Rightarrow> [j])"
  by (simp add: link_records_def List.map_filter_def split: option.splits)

lemma link_records_member:
  "k \<in> set ls \<Longrightarrow> link_record now k = Some j \<Longrightarrow> j \<in> set (link_records now ls)"
  by (force simp: link_records_def List.map_filter_def)

lemma link_loop_step:
  "link_loop now (l # rest) acc =
     link_loop now rest
       (if first_truthy [linkHref l] = [] then acc
        else if set_has (snd acc) (JStr (link_url l)) then acc
        else push_job (extractJobFromElement now (link_card l)
                         (trim (first_truthy [Some (linkText l), linkTitle l])) (link_url l)) acc)"
  by (simp add: Let_def link_url_def link_card_def)

lemma link_loop_first:
  assumes "climbs_within None pre ls"
    and "fst acc = first_by_url (link_records now pre)"
    and "snd acc = map url (fst acc)"
  shows "fst (link_loop now ls acc) = first_by_url (link_records now (pre @ ls))"
  using assms
proof (induction ls arbitrary: pre acc)
  case Nil
  then show ?case by simp
next
  case (Cons l ls)
  have later: "climbs_within None (pre @ [l]) ls" using Cons.prems(1) by simp
  have seen: "set (snd acc) = url ` set (link_records now pre)"
    using Cons.prems(2,3) first_by_url_urls [of "link_records now pre"] by simp
  let ?acc' = "if first_truthy [linkHref l] = [] then acc
        else if set_has (snd acc) (JStr (link_url l)) then acc
        else push_job (extractJobFromElement now (link_card l)
                         (trim (first_truthy [Some (linkText l), linkTitle l])) (link_url l)) acc"
  have step: "fst ?acc' = first_by_url (link_records now (pre @ [l])) \<and> snd ?acc' = map url (fst ?acc')"
  proof (cases "first_truthy [linkHref l] = []")
    case True
    then have "link_record now l = None" by (simp add: link_record_def)
    then show ?thesis using True Cons.prems(2,3) by (simp add: link_records_snoc)
  next
    case href: False
    have good: "own_first l \<or>
        (\<exists>k \<in> set pre. own_first k \<and> first_href (urlHrefs (link_card l)) = link_url k)"
      using Cons.prems(1) by simp
    then show ?thesis
    proof
      assume own: "own_first l"
      then obtain j where j: "link_record now l = Some j" "url j = JStr (link_url l)"
        using own_first_record by blast
      then have e: "extractJobFromElement now (link_card l)
          (trim (first_truthy [Some (linkText l), linkTitle l])) (link_url l) = Some j"
        using href by (simp add: link_record_def)
      have ne: "link_url l \<noteq> []" by (simp add: link_url_def absolute_url_nonempty)
      show ?thesis
      proof (cases "JStr (link_url l) \<in> set (snd acc)")
        case True
        then have "url j \<in> url ` set (link_records now pre)" using seen j by simp
        then show ?thesis using True href j Cons.prems(2,3)
          by (simp add: link_records_snoc first_by_url_snoc set_has_def)
      next
        case False
        then have "url j \<notin> url ` set (link_records now pre)" using seen j by simp
        then show ?thesis using False href j e ne Cons.prems(2,3)
          by (simp add: link_records_snoc first_by_url_snoc set_has_def push_job_def set_add_def)
      qed
    next
      assume "\<exists>k \<in> set pre. own_first k \<and> first_href (urlHrefs (link_card l)) = link_url k"
      then obtain k where k: "k \<in> set pre" "own_first k"
        "first_href (urlHrefs (link_card l)) = link_url k" by blast
      have ne: "link_url k \<noteq> []" by (simp add: link_url_def absolute_url_nonempty)
      obtain jk where jk: "link_record now k = Some jk" "url jk = JStr (link_url k)"
        using own_first_record [OF k(2)] by blast
      obtain j where j: "link_record now l = Some j" "url j = JStr (link_url k)"
        using link_record_found [OF href k(3) ne] by blast
      then have e: "extractJobFromElement now (link_card l)
          (trim (first_truthy [Some (linkText l), linkTitle l])) (link_url l) = Some j"
        using href by (simp add: link_record_def)
      have "jk \<in> set (link_records now pre)" using k(1) jk(1) by (rule link_records_member)
      then have old: "url j \<in> url ` set (link_records now pre)" using jk(2) j(2) by force
      then have "set_has (snd acc) (url j)" using seen j(2) by (simp add: set_has_def)
      then have "?acc' = acc" using href e by (simp add: push_job_def)
      then show ?thesis using old j Cons.prems(2,3)
        by (simp add: link_records_snoc first_by_url_snoc)
    qed
  qed
  have "fst (link_loop now ls ?acc') = first_by_url (link_records now ((pre @ [l]) @ ls))"
    using step by (intro Cons.IH [OF later]) simp_all
  then show ?case unfolding link_loop_step by simp
qed

lemma climbs_within_mono:
  "climbs_within ctx pre ls \<Longrightarrow> set pre \<subseteq> set pre' \<Longrightarrow> climbs_within ctx pre' ls"
proof (induction ls arbitrary: pre pre')
  case Nil
  then show ?case by simp
next
  case (Cons l ls)
  have g: "ctx = Some (link_card l) \<or> own_first l \<or>
      (\<exists>k \<in> set pre. own_first k \<and> first_href (urlHrefs (link_card l)) = link_url k)"
    and r: "climbs_within ctx (pre @ [l]) ls"
    using Cons.prems(1) by simp_all
  have "set (pre @ [l]) \<subseteq> set (pre' @ [l])" using Cons.prems(2) by auto
  then have "climbs_within ctx (pre' @ [l]) ls" by (rule Cons.IH [OF r])
  moreover have "ctx = Some (link_card l) \<or> own_first l \<or>
      (\<exists>k \<in> set pre'. own_first k \<and> first_href (urlHrefs (link_card l)) = link_url k)"
    using g Cons.prems(2) by blast
  ultimately show ?case by simp
qed

lemma climbs_within_append:
  "climbs_within ctx pre (xs @ ys) = (climbs_within ctx pre xs \<and> climbs_within ctx (pre @ xs) ys)"
  by (induction xs arbitrary: pre) simp_all

lemma climbs_within_context:
  "climbs_within None pre ls \<Longrightarrow> climbs_within ctx pre ls"
  by (induction ls arbitrary: pre) simp_all

lemma climbs_within_concat:
  assumes "\<forall>x \<in> set xs. climbs_within ctx [] (f x)"
  shows "climbs_within ctx [] (concat (map f xs))"
  using assms
proof (induction xs rule: rev_induct)
  case Nil
  then show ?case by simp
next
  case (snoc x xs)
  have "climbs_within ctx [] (f x)" using snoc.prems by simp
  then have "climbs_within ctx ([] @ concat (map f xs)) (f x)"
    by (rule climbs_within_mono) simp
  then show ?case using snoc by (simp add: climbs_within_append)
qed

lemma resolve_rest:
  assumes "climbs_within (Some c) pre ls"
    and "\<exists>k \<in> set pre. own_first k \<and> first_href (urlHrefs c) = link_url k"
  shows "climbs_within None pre ls"
  using assms
proof (induction ls arbitrary: pre)
  case Nil
  then show ?case by simp
next
  case (Cons l ls)
  obtain k where k: "k \<in> set pre" "own_first k" "first_href (urlHrefs c) = link_url k"
    using Cons.prems(2) by blast
  have g: "c = link_card l \<or> own_first l \<or>
      (\<exists>k \<in> set pre. own_first k \<and> first_href (urlHrefs (link_card l)) = link_url k)"
    and r: "climbs_within (Some c) (pre @ [l]) ls"
    using Cons.prems(1) by simp_all
  have "\<exists>k \<in> set (pre @ [l]). own_first k \<and> first_href (urlHrefs c) = link_url k"
    using k by (intro bexI [of _ k]) simp_all
  then have "climbs_within None (pre @ [l]) ls" using r by (intro Cons.IH)
  moreover have "own_first l \<or>
      (\<exists>k \<in> set pre. own_first k \<and> first_href (urlHrefs (link_card l)) = link_url k)"
  proof (cases "c = link_card l")
    case True
    then have "first_href (urlHrefs (link_card l)) = link_url k" using k(3) by simp
    then show ?thesis using k(1,2) by blast
  next
    case False
    then show ?thesis using g by blast
  qed
  ultimately show ?case by simp
qed

lemma resolve_context:
  assumes "climbs_within (Some c) [] ls"
    and "ls \<noteq> [] \<Longrightarrow> first_truthy [linkHref (hd ls)] \<noteq> [] \<and> first_href (urlHrefs c) = link_url (hd ls)"
  shows "climbs_within None [] ls"
proof (cases ls)
  case Nil
  then show ?thesis by simp
next
  case (Cons l rest)
  have h: "first_truthy [linkHref l] \<noteq> []" "first_href (urlHrefs c) = link_url l"
    using assms(2) Cons by simp_all
  have g: "c = link_card l \<or> own_first l" and r: "climbs_within (Some c) [l] rest"
    using assms(1) Cons by simp_all
  have own: "own_first l"
  proof (cases "c = link_card l")
    case True
    then have "first_href (urlHrefs (link_card l)) = link_url l" using h(2) by simp
    then show ?thesis using h(1) by (simp add: own_first_def)
  next
    case False
    then show ?thesis using g by blast
  qed
  have "\<exists>k \<in> set [l]. own_first k \<and> first_href (urlHrefs c) = link_url k"
    using own h(2) by simp
  then have "climbs_within None [l] rest" using r by (intro resolve_rest)
  then show ?thesis using own Cons by simp
qed

lemma climb_hrefs: "map linkHref (climb cl par node) = map Some (job_hrefs node)"
proof (induction node arbitrary: cl par)
  case (JobAnchor pre post t ti)
  then show ?case by simp
next
  case (DomElement blk el kids)
  have eq: "concat (map (\<lambda>k. map linkHref (climb cl' par' k)) kids) =
      concat (map (\<lambda>k. map Some (job_hrefs k)) kids)" for cl' par'
    using DomElement by (intro arg_cong [where f = concat] map_cong refl) simp
  show ?case by (simp add: Let_def map_concat comp_def eq)
qed

lemma job_hrefs_nonempty: "h \<in> set (job_hrefs node) \<Longrightarrow> h \<noteq> []"
  by (induction node) auto

lemma element_card_first:
  assumes "concat (map job_hrefs kids) = h # hs"
  shows "first_href (urlHrefs (element_card el kids)) = absolute_url h"
proof -
  have "h \<in> set (concat (map job_hrefs kids))" using assms by simp
  then have "h \<noteq> []" using job_hrefs_nonempty by auto
  then show ?thesis using assms by (simp add: element_card_def)
qed

lemma element_links_first:
  assumes "ls = concat (map (climb cl' (element_card el kids)) kids)" and "ls \<noteq> []"
  shows "first_truthy [linkHref (hd ls)] \<noteq> [] \<and>
         first_href (urlHrefs (element_card el kids)) = link_url (hd ls)"
proof -
  have "map linkHref ls = map Some (concat (map job_hrefs kids))"
    using assms(1) climb_hrefs by (simp add: map_concat comp_def)
  moreover obtain l rest where ls: "ls = l # rest" using assms(2) by (cases ls) auto
  ultimately obtain h hs where hs: "concat (map job_hrefs kids) = h # hs" "linkHref l = Some h"
    by (cases "concat (map job_hrefs kids)") auto
  have "h \<in> set (concat (map job_hrefs kids))" using hs by simp
  then have "h \<noteq> []" using job_hrefs_nonempty by auto
  then show ?thesis using hs ls element_card_first [OF hs(1), of el]
    by (simp add: link_url_def)
qed

lemma climb_within:
  "climbs_within (Some (case cl of Some c \<Rightarrow> c | None \<Rightarrow> par)) [] (climb cl par node)"
proof (induction node arbitrary: cl par)
  case (JobAnchor pre post t ti)
  then show ?case by (cases cl) (simp_all add: link_card_def)
next
  case (DomElement blk el kids)
  define c where "c = element_card el kids"
  define cl' where "cl' = (if blk then Some c else cl)"
  define ls where "ls = concat (map (climb cl' c) kids)"
  have inner: "climbs_within (Some (case cl' of Some x \<Rightarrow> x | None \<Rightarrow> c)) [] ls"
    unfolding ls_def using DomElement by (intro climbs_within_concat) simp
  have whole: "climb cl par (DomElement blk el kids) = ls"
    by (simp add: ls_def cl'_def c_def Let_def)
  show ?case
  proof (cases "blk \<or> cl = None")
    case True
    then have "climbs_within (Some c) [] ls" using inner by (cases blk) (auto simp: cl'_def)
    moreover have "ls \<noteq> [] \<Longrightarrow>
        first_truthy [linkHref (hd ls)] \<noteq> [] \<and> first_href (urlHrefs c) = link_url (hd ls)"
      unfolding c_def using element_links_first [of ls cl' el kids] by (simp add: ls_def c_def)
    ultimately have "climbs_within None [] ls" by (rule resolve_context)
    then show ?thesis using whole by (simp add: climbs_within_context)
  next
    case False
    then show ?thesis using inner whole by (auto simp: cl'_def)
  qed
qed

lemma document_links_climb: "climbs_within None [] (document_links html)"
proof (cases html)
  case (JobAnchor pre post t ti)
  then show ?thesis by (simp add: document_links_def)
next
  case (DomElement blk el kids)
  define c where "c = element_card el kids"
  define ls where "ls = concat (map (climb (if blk then Some c else None) c) kids)"
  have "\<forall>kid \<in> set kids. climbs_within (Some c) [] (climb (if blk then Some c else None) c kid)"
    using climb_within [where cl = "if blk then Some c else None" and par = c]
    by (cases blk) simp_all
  then have "climbs_within (Some c) [] ls"
    unfolding ls_def by (intro climbs_within_concat) simp
  moreover have "ls \<noteq> [] \<Longrightarrow>
      first_truthy [linkHref (hd ls)] \<noteq> [] \<and> first_href (urlHrefs c) = link_url (hd ls)"
    unfolding c_def
    using element_links_first [of ls "if blk then Some c else None" el kids]
    by (simp add: ls_def c_def)
  ultimately have "climbs_within None [] ls" by (rule resolve_context)
  moreover have "document_links html = ls"
    using DomElement by (simp add: document_links_def ls_def c_def Let_def)
  ultimately show ?thesis by simp
qed

lemma tuple_path_empty:
  assumes "tuple_jobs now doc = []"
  shows "(if jobElements doc = [] then fallback_loop now (fallbackElements doc) ([], [])
          else foldl (card_step now) ([], []) (jobElements doc)) = ([], [])"
proof -
  let ?acc = "if jobElements doc = [] then fallback_loop now (fallbackElements doc) ([], [])
          else foldl (card_step now) ([], []) (jobElements doc)"
  have "acc_ok ?acc" using acc_ok_empty by (simp add: fallback_loop_ok card_fold_ok)
  moreover have "fst ?acc = []" using tuple_path_jobs [of doc now] assms by simp
  ultimately show ?thesis by (simp add: acc_ok_def prod_eq_iff)
qed

lemma link_path_jobs:
  assumes "tuple_jobs now doc = []" and "climbs_within None [] (jobLinkEls doc)"
  shows "extractJobDataViaHTML now (Some doc) = link_jobs now (jobLinkEls doc)"
proof -
  have "fst (link_loop now (jobLinkEls doc) ([], [])) =
      first_by_url (link_records now ([] @ jobLinkEls doc))"
    using assms(2) by (intro link_loop_first) (simp_all add: link_records_def first_by_url_Nil List.map_filter_simps)
  then show ?thesis using tuple_path_empty [OF assms(1)]
    by (simp add: extractJobDataViaHTML_def Let_def link_jobs_def)
qed

lemma first_by_url_subseq: "subseq (first_by_url js) js"
proof (induction js rule: rev_induct)
  case Nil
  then show ?case by (simp add: first_by_url_Nil)
next
  case (snoc j js)
  then show ?case by (auto simp: first_by_url_snoc intro: subseq_rev_drop_many list_emb_append_mono)
qed

lemma find_snoc:
  "List.find P (js @ [j]) =
     (case List.find P js of Some x \<Rightarrow> Some x | None \<Rightarrow> if P j then Some j else None)"
  by (induction js) simp_all

lemma first_by_url_first:
  "j \<in> set (first_by_url js) \<Longrightarrow> List.find (\<lambda>r. url r = url j) js = Some j"
proof (induction js rule: rev_induct)
  case Nil
  then show ?case by (simp add: first_by_url_Nil)
next
  case (snoc x js)
  show ?case
  proof (cases "j \<in> set (first_by_url js)")
    case True
    then show ?thesis using snoc.IH by (simp add: find_snoc)
  next
    case False
    then have new: "j = x" "url x \<notin> url ` set js"
      using snoc.prems by (auto simp: first_by_url_snoc split: if_splits)
    then have "List.find (\<lambda>r. url r = url j) js = None"
      by (force simp: find_None_iff image_iff)
    then show ?thesis using new by (simp add: find_snoc)
  qed
qed

text \<open>
  C9. The extractor never returns two records with the same URL, on any of its paths.
  Its output is the first-occurrence deduplication, by URL, of the records its cards
  yield, in the order of the cards. On the tuple paths the cards are the primary cards,
  or else the cards of the first fallback selector that yields a record, and the records
  are those with a URL (\<open>tuple_jobs\<close>). When the tuple paths yield nothing the cards
  are the elements climbed to from the job links of the document, one for each link in
  document order, and the records are those of the links (\<open>link_jobs\<close>).
  First-occurrence deduplication keeps the order of the records, keeps every URL, keeps
  no URL twice, and keeps for each URL the first record that has it. The extractor takes
  the page alone: the run's seen-set is not among its arguments.
\<close>

theorem markup_extractor_first_occurrence:
  "distinct (map url (extractJobDataViaHTML now page)) \<and>
   (\<forall>doc. page = Some doc \<longrightarrow> tuple_jobs now doc \<noteq> [] \<longrightarrow>
      extractJobDataViaHTML now page = tuple_jobs now doc) \<and>
   (\<forall>doc html. page = Some doc \<longrightarrow> tuple_jobs now doc = [] \<longrightarrow>
      jobLinkEls doc = document_links html \<longrightarrow>
      extractJobDataViaHTML now page = link_jobs now (jobLinkEls doc)) \<and>
   (\<forall>js. subseq (first_by_url js) js \<and>
      url ` set (first_by_url js) = url ` set js \<and>
      distinct (map url (first_by_url js)) \<and>
      (\<forall>j \<in> set (first_by_url js). List.find (\<lambda>r. url r = url j) js = Some j))"
proof (intro conjI allI impI ballI)
  obtain seen where "acc_ok (extractJobDataViaHTML now page, seen)"
    using extractJobDataViaHTML_ok by blast
  then show "distinct (map url (extractJobDataViaHTML now page))"
    by (auto simp: acc_ok_def)
next
  fix doc
  assume "page = Some doc" and "tuple_jobs now doc \<noteq> []"
  then show "extractJobDataViaHTML now page = tuple_jobs now doc"
    using tuple_path_jobs [of doc now] by (simp add: extractJobDataViaHTML_def Let_def)
next
  fix doc html
  assume p: "page = Some doc" and t: "tuple_jobs now doc = []"
    and l: "jobLinkEls doc = document_links html"
  have "climbs_within None [] (jobLinkEls doc)"
    unfolding l by (rule document_links_climb)
  then show "extractJobDataViaHTML now page = link_jobs now (jobLinkEls doc)"
    unfolding p using t by (intro link_path_jobs)
next
  fix js
  show "subseq (first_by_url js) js" by (rule first_by_url_subseq)
  show "url ` set (first_by_url js) = url ` set js" by (rule first_by_url_urls)
  show "distinct (map url (first_by_url js))" by (rule first_by_url_distinct)
  fix j
  assume "j \<in> set (first_by_url js)"
  then show "List.find (\<lambda>r. url r = url j) js = Some j" by (rule first_by_url_first)
qed

text \<open>
  C10. Every record the markup extractor returns has a URL that is a non-empty string,
  whichever path produced it; so a card for which \<open>extractJobFromElement\<close> returns a
  record with a title and an empty URL contributes nothing to the output.
\<close>

theorem markup_extractor_url_nonempty:
  "(\<forall>j \<in> set (extractJobDataViaHTML now page). \<exists>u. url j = JStr u \<and> u \<noteq> []) \<and>
   (\<forall>el j. extractJobFromElement now el [] [] = Some j \<and> \<not> truthy (url j) \<longrightarrow>
      j \<notin> set (extractJobDataViaHTML now page))"
proof -
  obtain seen where "acc_ok (extractJobDataViaHTML now page, seen)"
    using extractJobDataViaHTML_ok by blast
  then have 1: "\<forall>j \<in> set (extractJobDataViaHTML now page). \<exists>u. url j = JStr u \<and> u \<noteq> []"
    by (simp add: acc_ok_def)
  then have "\<forall>j \<in> set (extractJobDataViaHTML now page). truthy (url j)" by auto
  then show ?thesis using 1 by blast
qed

theorem markup_extractor_first_occurrence_witness:
  "extractJobDataViaHTML example_now (Some example_page) =
     [listing_job ''A'' ''https://www.naukri.com/job-listings-a'', listing_job ''C'' ''http://x/c'']
   \<and> url_records example_now (jobElements example_page) =
     [listing_job ''A'' ''https://www.naukri.com/job-listings-a'',
      listing_job ''B'' ''https://www.naukri.com/job-listings-a'',
      listing_job ''C'' ''http://x/c'']
   \<and> distinct (map url (extractJobDataViaHTML example_now (Some example_page)))
   \<and> tuple_jobs example_now example_link_page = []
   \<and> link_records example_now (jobLinkEls example_link_page) =
     [listing_job ''A'' ''https://www.naukri.com/job-listings-a'',
      listing_job ''A again'' ''https://www.naukri.com/job-listings-a'',
      listing_job ''A again'' ''https://www.naukri.com/job-listings-a'',
      listing_job ''C'' ''http://x/job-listings-c'']
   \<and> extractJobDataViaHTML example_now (Some example_link_page) =
     [listing_job ''A'' ''https://www.naukri.com/job-listings-a'',
      listing_job ''C'' ''http://x/job-listings-c'']"
proof -
  have t: "tuple_jobs example_now example_page =
     [listing_job ''A'' ''https://www.naukri.com/job-listings-a'', listing_job ''C'' ''http://x/c'']"
    by code_simp
  have r: "url_records example_now (jobElements example_page) =
     [listing_job ''A'' ''https://www.naukri.com/job-listings-a'',
      listing_job ''B'' ''https://www.naukri.com/job-listings-a'',
      listing_job ''C'' ''http://x/c'']"
    by code_simp
  have "extractJobDataViaHTML example_now (Some example_page) = tuple_jobs example_now example_page"
    and d: "distinct (map url (extractJobDataViaHTML example_now (Some example_page)))"
    using markup_extractor_first_occurrence [of example_now "Some example_page"] t by auto
  then have a: "extractJobDataViaHTML example_now (Some example_page) =
     [listing_job ''A'' ''https://www.naukri.com/job-listings-a'', listing_job ''C'' ''http://x/c'']"
    using t by simp
  have tl: "tuple_jobs example_now example_link_page = []"
    by code_simp
  have ll: "jobLinkEls example_link_page = document_links example_document"
    by (simp add: example_link_page_def)
  have lr: "link_records example_now (jobLinkEls example_link_page) =
     [listing_job ''A'' ''https://www.naukri.com/job-listings-a'',
      listing_job ''A again'' ''https://www.naukri.com/job-listings-a'',
      listing_job ''A again'' ''https://www.naukri.com/job-listings-a'',
      listing_job ''C'' ''http://x/job-listings-c'']"
    by code_simp
  have lj: "link_jobs example_now (jobLinkEls example_link_page) =
     [listing_job ''A'' ''https://www.naukri.com/job-listings-a'',
      listing_job ''C'' ''http://x/job-listings-c'']"
    by code_simp
  have "extractJobDataViaHTML example_now (Some example_link_page) =
      link_jobs example_now (jobLinkEls example_link_page)"
    using markup_extractor_first_occurrence [of example_now "Some example_link_page"] tl ll
    by blast
  then show ?thesis using a r d tl lr lj by simp
qed

theorem markup_extractor_url_nonempty_witness:
  "extractJobFromElement example_now (plain_card ''A'' None) [] [] = Some (listing_job ''A'' [])
   \<and> \<not> truthy (url (listing_job ''A'' []))
   \<and> listing_job ''A'' [] \<notin> set (extractJobDataViaHTML example_now (Some example_page_no_url))
   \<and> listing_job ''C'' ''http://x/c'' \<in> set (extractJobDataViaHTML example_now (Some example_page_no_url))
   \<and> (\<exists>u. url (listing_job ''C'' ''http://x/c'') = JStr u \<and> u \<noteq> [])"
proof -
  have e: "extractJobFromElement example_now (plain_card ''A'' None) [] [] = Some (listing_job ''A'' [])"
    by code_simp
  have n: "\<not> truthy (url (listing_job ''A'' []))"
    by (simp add: listing_job_def)
  have m: "listing_job ''C'' ''http://x/c'' \<in> set (extractJobDataViaHTML example_now (Some example_page_no_url))"
    by code_simp
  have "listing_job ''A'' [] \<notin> set (extractJobDataViaHTML example_now (Some example_page_no_url))"
    and "\<exists>u. url (listing_job ''C'' ''http://x/c'') = JStr u \<and> u \<noteq> []"
    using markup_extractor_url_nonempty [of example_now "Some example_page_no_url"] e n m by blast+
  then show ?thesis using e n m by simp
qed

section \<open>Properties of the structured-data extractor\<close>

lemma and_then_Inr [simp]: "and_then (Inr x) f = f x"
  by (simp add: and_then_def)

lemma and_then_Inl [simp]: "and_then (Inl e) f = Inl e"
  by (simp add: and_then_def)































lemma years_tenths_int: "years_tenths m = (10 * m + 6) div 12"
proof -
  have eq: "(of_int m / 12) * 10 + 1 / 2 = (of_int (10 * m + 6) / of_int 12 :: rat)"
    by (simp add: field_simps)
  have "years_tenths m = \<lfloor>(of_int m / 12) * 10 + 1 / 2 :: rat\<rfloor>"
    unfolding years_tenths_def round_def ..
  also have "\<dots> = \<lfloor>of_int (10 * m + 6) / of_int 12 :: rat\<rfloor>"
    by (simp only: eq)
  also have "\<dots> = (10 * m + 6) div 12"
    by (rule floor_divide_of_int_eq)
  finally show ?thesis .
qed

lemma normalizeExperience_months:
  "0 < m \<Longrightarrow>
   normalizeExperienceFromJsonLd (JObj [(''monthsOfExperience'', JNum m)]) =
     Inr (JStr (show_tenths (years_tenths m) @ '' years''))"
proof -
  assume "0 < m"
  then have "0 \<le> years_tenths m" by (simp add: years_tenths_int)
  then show ?thesis using \<open>0 < m\<close>
    by (simp add: normalizeExperienceFromJsonLd_def nullish_or_def Let_def max_def)
qed

text \<open>
  C5, at a posting with neither title nor URL. \<open>extractJobFromElement\<close> returns a record
  only with a title or a URL (lemma \<open>extractJobFromElement_title\<close>: the title it stores is
  never empty), but \<open>extractJobsViaJsonLD\<close> pushes the record of a \<open>JobPosting\<close> that has
  neither.
\<close>

theorem structured_data_emits_empty_record:
  "\<exists>j. extractJobsViaJsonLD example_now (Some [Some posting_bare]) = [j]
       \<and> title j = JStr [] \<and> url j = JStr []
       \<and> \<not> truthy (title j) \<and> \<not> truthy (url j)"
proof -
  have "extractJobsViaJsonLD example_now (Some [Some posting_bare]) =
      [(listing_job [] []) \<lparr>salary := JStr ''Not specified''\<rparr>]"
    by code_simp
  then show ?thesis by (simp add: listing_job_def)
qed

text \<open>
  C8, at the posting of scenario D. \<open>normalizeExperienceFromJsonLd\<close> turns 30 months into
  \<open>2.5 years\<close>, but \<open>parseJobPosting\<close>, which builds the records of the structured-data
  extractor, never reads \<open>experienceRequirements\<close>: it only pattern-matches the
  description, and here gives \<open>Not specified\<close>.
\<close>

theorem listing_posting_ignores_months:
  "normalizeExperienceFromJsonLd (get_prop posting_months_30 ''experienceRequirements'') =
     Inr (JStr ''2.5 years'')
   \<and> map experience (extractJobsViaJsonLD example_now (Some [Some posting_months_30])) =
     [JStr ''Not specified'']"
proof -
  have "normalizeExperienceFromJsonLd (get_prop posting_months_30 ''experienceRequirements'') =
     Inr (JStr ''2.5 years'')"
    by code_simp
  moreover have "map experience (extractJobsViaJsonLD example_now (Some [Some posting_months_30])) =
     [JStr ''Not specified'']"
    by code_simp
  ultimately show ?thesis by simp
qed

section \<open>Properties of pagination\<close>

lemma save_batch_counters:
  "pagesProcessed (fst (save_batch q fpd fetch st jobs)) = pagesProcessed st"
  "totalJobsScraped (fst (save_batch q fpd fetch st jobs)) =
     totalJobsScraped st + length (snd (save_batch q fpd fetch st jobs))"
  by (simp_all add: save_batch_def Let_def split_beta)

text \<open>The jobs a page gives the handler, and the state before they are saved.\<close>

lemma requestHandler_early:
  assumes "navigationFails page \<or> 3 \<le> challenge_loop (challengeView page) 0 \<or>
     (extractJobDataViaHTML (clock page) (markup page) = [] \<and>
      extractJobsViaJsonLD (clock page) (scripts page) = [])"
  shows "snd (requestHandler cfg st u page) = None"
    and "totalJobsScraped (fst (requestHandler cfg st u page)) = totalJobsScraped st"
    and "pagesProcessed (fst (requestHandler cfg st u page)) = pagesProcessed st + 1"
  using assms by (auto simp: requestHandler_def Let_def)

lemma requestHandler_saving:
  assumes "\<not> navigationFails page" and "\<not> 3 \<le> challenge_loop (challengeView page) 0"
    and "\<not> (extractJobDataViaHTML (clock page) (markup page) = [] \<and>
      extractJobsViaJsonLD (clock page) (scripts page) = [])"
  shows "\<exists>st1 jobs.
      totalJobsScraped st1 = totalJobsScraped st \<and> pagesProcessed st1 = pagesProcessed st + 1 \<and>
      requestHandler cfg st u page =
        (fst (save_batch (inputMaxJobs cfg) (inputFullPageDetails cfg) (detail page) st1 jobs),
         decide_next cfg page u (current_page_no (pageUrl page))
           (fst (save_batch (inputMaxJobs cfg) (inputFullPageDetails cfg) (detail page) st1 jobs))
           (snd (save_batch (inputMaxJobs cfg) (inputFullPageDetails cfg) (detail page) st1 jobs)))"
proof (cases "extractJobDataViaHTML (clock page) (markup page) = []")
  case True
  let ?st1 = "st\<lparr>pagesProcessed := pagesProcessed st + 1, extractionMethod := ''JSON-LD''\<rparr>"
  have "requestHandler cfg st u page =
        (fst (save_batch (inputMaxJobs cfg) (inputFullPageDetails cfg) (detail page) ?st1
                (extractJobsViaJsonLD (clock page) (scripts page))),
         decide_next cfg page u (current_page_no (pageUrl page))
           (fst (save_batch (inputMaxJobs cfg) (inputFullPageDetails cfg) (detail page) ?st1
                   (extractJobsViaJsonLD (clock page) (scripts page))))
           (snd (save_batch (inputMaxJobs cfg) (inputFullPageDetails cfg) (detail page) ?st1
                   (extractJobsViaJsonLD (clock page) (scripts page)))))"
    using assms True by (simp add: requestHandler_def Let_def)
  moreover have "totalJobsScraped ?st1 = totalJobsScraped st"
    and "pagesProcessed ?st1 = pagesProcessed st + 1" by simp_all
  ultimately show ?thesis by blast
next
  case False
  let ?st1 = "st\<lparr>pagesProcessed := pagesProcessed st + 1,
                   extractionMethod := ''HTML Parsing (Cheerio)''\<rparr>"
  have "requestHandler cfg st u page =
        (fst (save_batch (inputMaxJobs cfg) (inputFullPageDetails cfg) (detail page) ?st1
                (extractJobDataViaHTML (clock page) (markup page))),
         decide_next cfg page u (current_page_no (pageUrl page))
           (fst (save_batch (inputMaxJobs cfg) (inputFullPageDetails cfg) (detail page) ?st1
                   (extractJobDataViaHTML (clock page) (markup page))))
           (snd (save_batch (inputMaxJobs cfg) (inputFullPageDetails cfg) (detail page) ?st1
                   (extractJobDataViaHTML (clock page) (markup page)))))"
    using assms False by (simp add: requestHandler_def Let_def)
  moreover have "totalJobsScraped ?st1 = totalJobsScraped st"
    and "pagesProcessed ?st1 = pagesProcessed st + 1" by simp_all
  ultimately show ?thesis by blast
qed

lemma decide_next_None:
  "decide_next cfg page u cp st2 saved = None \<longleftrightarrow>
     (inputMaxJobs cfg > 0 \<and> totalJobsScraped st2 \<ge> inputMaxJobs cfg) \<or>
     cp + 1 > max_pages (inputMaxJobs cfg) \<or> saved = []"
  by (auto simp: decide_next_def Let_def)

lemma decide_next_Some:
  "decide_next cfg page u cp st2 saved = Some r \<Longrightarrow>
     reqUrl r = next_page_url page u (cp + 1) \<and> cp + 1 \<le> max_pages (inputMaxJobs cfg)"
  by (auto simp: decide_next_def Let_def split: if_splits)

lemma requestHandler_pages:
  "pagesProcessed (fst (requestHandler cfg st u page)) = pagesProcessed st + 1"
proof (cases "navigationFails page \<or> 3 \<le> challenge_loop (challengeView page) 0 \<or>
     (extractJobDataViaHTML (clock page) (markup page) = [] \<and>
      extractJobsViaJsonLD (clock page) (scripts page) = [])")
  case True
  then show ?thesis by (rule requestHandler_early(3))
next
  case False
  then obtain st1 jobs where "pagesProcessed st1 = pagesProcessed st + 1"
    "requestHandler cfg st u page =
        (fst (save_batch (inputMaxJobs cfg) (inputFullPageDetails cfg) (detail page) st1 jobs),
         decide_next cfg page u (current_page_no (pageUrl page))
           (fst (save_batch (inputMaxJobs cfg) (inputFullPageDetails cfg) (detail page) st1 jobs))
           (snd (save_batch (inputMaxJobs cfg) (inputFullPageDetails cfg) (detail page) st1 jobs)))"
    using requestHandler_saving [where page=page and cfg=cfg and st=st and u=u] by auto
  then show ?thesis by (simp add: save_batch_counters)
qed

lemma requestHandler_stop_iff:
  "snd (requestHandler cfg st u page) = None \<longleftrightarrow>
     (inputMaxJobs cfg > 0 \<and>
        totalJobsScraped (fst (requestHandler cfg st u page)) \<ge> inputMaxJobs cfg) \<or>
     current_page_no (pageUrl page) + 1 > max_pages (inputMaxJobs cfg) \<or>
     totalJobsScraped (fst (requestHandler cfg st u page)) - totalJobsScraped st = 0"
proof (cases "navigationFails page \<or> 3 \<le> challenge_loop (challengeView page) 0 \<or>
     (extractJobDataViaHTML (clock page) (markup page) = [] \<and>
      extractJobsViaJsonLD (clock page) (scripts page) = [])")
  case True
  then show ?thesis
    using requestHandler_early(1,2) [where page=page and cfg=cfg and st=st and u=u] by simp
next
  case False
  then obtain st1 jobs where t: "totalJobsScraped st1 = totalJobsScraped st"
    and r: "requestHandler cfg st u page =
        (fst (save_batch (inputMaxJobs cfg) (inputFullPageDetails cfg) (detail page) st1 jobs),
         decide_next cfg page u (current_page_no (pageUrl page))
           (fst (save_batch (inputMaxJobs cfg) (inputFullPageDetails cfg) (detail page) st1 jobs))
           (snd (save_batch (inputMaxJobs cfg) (inputFullPageDetails cfg) (detail page) st1 jobs)))"
    using requestHandler_saving [where page=page and cfg=cfg and st=st and u=u] by auto
  show ?thesis
    unfolding r using t by (auto simp: decide_next_None save_batch_counters)
qed

lemma requestHandler_next:
  assumes "snd (requestHandler cfg st u page) = Some r"
  shows "reqUrl r = next_page_url page u (current_page_no (pageUrl page) + 1)"
    and "current_page_no (pageUrl page) + 1 \<le> max_pages (inputMaxJobs cfg)"
proof -
  have ne: "\<not> (navigationFails page \<or> 3 \<le> challenge_loop (challengeView page) 0 \<or>
     (extractJobDataViaHTML (clock page) (markup page) = [] \<and>
      extractJobsViaJsonLD (clock page) (scripts page) = []))"
    using assms requestHandler_early(1) [where page=page and cfg=cfg and st=st and u=u] by auto
  then obtain st1 jobs where r: "requestHandler cfg st u page =
        (fst (save_batch (inputMaxJobs cfg) (inputFullPageDetails cfg) (detail page) st1 jobs),
         decide_next cfg page u (current_page_no (pageUrl page))
           (fst (save_batch (inputMaxJobs cfg) (inputFullPageDetails cfg) (detail page) st1 jobs))
           (snd (save_batch (inputMaxJobs cfg) (inputFullPageDetails cfg) (detail page) st1 jobs)))"
    using requestHandler_saving [where page=page and cfg=cfg and st=st and u=u] by auto
  have "reqUrl r = next_page_url page u (current_page_no (pageUrl page) + 1) \<and>
      current_page_no (pageUrl page) + 1 \<le> max_pages (inputMaxJobs cfg)"
    using assms unfolding r by (auto dest: decide_next_Some)
  then show "reqUrl r = next_page_url page u (current_page_no (pageUrl page) + 1)"
    and "current_page_no (pageUrl page) + 1 \<le> max_pages (inputMaxJobs cfg)" by simp_all
qed

lemma current_page_no_pos: "1 \<le> current_page_no u"
  by (auto simp: current_page_no_def Let_def split: option.splits)

lemma crawl_empty: "crawl cfg site budget st [] keys = st"
  by (cases budget) simp_all

lemma crawl_chain:
  assumes "faithful_numbering (inputMaxJobs cfg) site"
  shows "pagesProcessed (crawl cfg site budget st [r] keys) \<le>
     pagesProcessed st +
       max 1 (max_pages (inputMaxJobs cfg) + 1 - current_page_no (pageUrl (site (reqUrl r))))"
proof (induction budget arbitrary: st r keys)
  case 0
  then show ?case by simp
next
  case (Suc budget)
  let ?page = "site (reqUrl r)"
  let ?res = "requestHandler cfg st (reqUrl r) ?page"
  have pp: "pagesProcessed (fst ?res) = pagesProcessed st + 1"
    by (rule requestHandler_pages)
  show ?case
  proof (cases "snd ?res")
    case None
    then have "crawl cfg site (Suc budget) st [r] keys = fst ?res"
      by (simp add: crawl_empty split_beta)
    then show ?thesis using pp by simp
  next
    case (Some r')
    have u: "reqUrl r' = next_page_url ?page (reqUrl r) (current_page_no (pageUrl ?page) + 1)"
      and le: "current_page_no (pageUrl ?page) + 1 \<le> max_pages (inputMaxJobs cfg)"
      using requestHandler_next [OF Some] by simp_all
    have num: "current_page_no (pageUrl (site (reqUrl r'))) = current_page_no (pageUrl ?page) + 1"
      using assms le u by (simp add: faithful_numbering_def)
    show ?thesis
    proof (cases "uniqueKey r' \<in> set keys")
      case True
      then have "crawl cfg site (Suc budget) st [r] keys = fst ?res"
        using Some by (simp add: crawl_empty split_beta)
      then show ?thesis using pp by simp
    next
      case False
      then have "crawl cfg site (Suc budget) st [r] keys =
          crawl cfg site budget (fst ?res) [r'] (keys @ [uniqueKey r'])"
        using Some by (simp add: split_beta)
      moreover have "pagesProcessed (crawl cfg site budget (fst ?res) [r'] (keys @ [uniqueKey r'])) \<le>
          pagesProcessed (fst ?res) +
            max 1 (max_pages (inputMaxJobs cfg) + 1 - current_page_no (pageUrl (site (reqUrl r'))))"
        by (rule Suc.IH)
      ultimately show ?thesis using pp num le by simp
    qed
  qed
qed

lemma run_crawler_ceiling:
  assumes "inputMaxJobs cfg > 0" and "faithful_numbering (inputMaxJobs cfg) site"
  shows "pagesProcessed (run_crawler cfg site searchUrl) \<le> (inputMaxJobs cfg + 19) div 20"
proof -
  have "pagesProcessed (run_crawler cfg site searchUrl) \<le>
      pagesProcessed initial_state +
        max 1 (max_pages (inputMaxJobs cfg) + 1 - current_page_no (pageUrl (site searchUrl)))"
    unfolding run_crawler_def
    using crawl_chain [OF assms(2), of "maxRequestsPerCrawl (inputMaxJobs cfg)" initial_state
        "\<lparr>reqUrl = searchUrl, uniqueKey = (searchUrl, None)\<rparr>" "[(searchUrl, None)]"]
    by simp
  moreover have "1 \<le> current_page_no (pageUrl (site searchUrl))"
    by (rule current_page_no_pos)
  moreover have "1 \<le> max_pages (inputMaxJobs cfg)"
    using assms(1) by (simp add: max_pages_def)
  moreover have "max_pages (inputMaxJobs cfg) = (inputMaxJobs cfg + 19) div 20"
    using assms(1) by (simp add: max_pages_def)
  ultimately show ?thesis by (simp add: initial_state_def)
qed

lemma show_nat_2: "show_nat 2 = ''2''"
  by code_simp

lemma rewrite_start_page:
  "pathname u = ''/sales-jobs'' \<Longrightarrow> pathname (rewrite_page u 2) = ''/sales-jobs-2''"
  by (simp add: rewrite_page_def drop_trailing_slash_def page_suffix_def is_digit_def Let_def
      show_nat_2)

lemma numbered_site_faithful: "faithful_numbering 40 numbered_site"
proof -
  have two: "current_page_no \<lparr>pathname = ''/sales-jobs-2'', pageNoParam = None, others = []\<rparr> = 2"
    by code_simp
  have mp: "max_pages 40 = 2" by (simp add: max_pages_def)
  show ?thesis
    unfolding faithful_numbering_def mp
  proof (intro allI impI)
    fix u
    assume le: "current_page_no (pageUrl (numbered_site u)) + 1 \<le> 2"
    show "current_page_no (pageUrl (numbered_site (next_page_url (numbered_site u) u
              (current_page_no (pageUrl (numbered_site u)) + 1)))) =
          current_page_no (pageUrl (numbered_site u)) + 1"
    proof (cases "pathname u = ''/sales-jobs''")
      case False
      then have "current_page_no (pageUrl (numbered_site u)) = 2"
        using two by (simp add: numbered_site_def one_job_page_def)
      then show ?thesis using le by simp
    next
      case True
      then have pu: "pageUrl (numbered_site u) = u"
        by (simp add: numbered_site_def one_job_page_def)
      have "1 \<le> current_page_no u" by (rule current_page_no_pos)
      then have step: "current_page_no (pageUrl (numbered_site u)) + 1 = 2" using le pu by simp
      have nx: "next_page_url (numbered_site u) u 2 = rewrite_page u 2"
        using True by (simp add: next_page_url_def numbered_site_def one_job_page_def)
      have pn: "pathname (rewrite_page u 2) = ''/sales-jobs-2''"
        using True by (rule rewrite_start_page)
      have tgt: "pageUrl (numbered_site (rewrite_page u 2)) =
          \<lparr>pathname = ''/sales-jobs-2'', pageNoParam = None, others = []\<rparr>"
        by (simp add: numbered_site_def one_job_page_def pn)
      show ?thesis unfolding step nx tgt by (rule two)
    qed
  qed
qed

lemma of_char_digit_char: "d < 10 \<Longrightarrow> (of_char (digit_char d) :: nat) = 48 + d"
  by (simp add: digit_char_def)

lemma is_digit_digit_char: "d < 10 \<Longrightarrow> is_digit (digit_char d)"
  by (simp add: is_digit_def of_char_digit_char)

lemma digits_value_snoc: "digits_value (ds @ [c]) = 10 * digits_value ds + (of_char c - 48)"
  by (simp add: digits_value_def)

lemma digits_value_show_nat: "digits_value (show_nat n) = n"
proof (induction n rule: show_nat.induct)
  case (1 n)
  show ?case
  proof (cases "n < 10")
    case True
    then show ?thesis by (simp add: show_nat_small digits_value_def of_char_digit_char)
  next
    case False
    then have "show_nat n = show_nat (n div 10) @ [digit_char (n mod 10)]"
      by (subst show_nat.simps) simp
    then show ?thesis using "1.IH" False
      by (simp add: digits_value_snoc of_char_digit_char)
  qed
qed

lemma show_nat_digits: "list_all is_digit (show_nat n) \<and> show_nat n \<noteq> []"
proof (induction n rule: show_nat.induct)
  case (1 n)
  show ?case
  proof (cases "n < 10")
    case True
    then show ?thesis by (simp add: show_nat_small is_digit_digit_char)
  next
    case False
    then have "show_nat n = show_nat (n div 10) @ [digit_char (n mod 10)]"
      by (subst show_nat.simps) simp
    then show ?thesis using "1.IH" False by (simp add: is_digit_digit_char)
  qed
qed

lemma hyphen_not_digit: "\<not> is_digit CHR ''-''"
  by (simp add: is_digit_def)

lemma slash_not_digit: "\<not> is_digit CHR ''/''"
  by (simp add: is_digit_def)

lemma page_suffix_numbered:
  assumes "list_all is_digit ds" and "ds \<noteq> []"
  shows "page_suffix (base @ CHR ''-'' # ds) = Some ds"
proof -
  have all: "\<And>c. c \<in> set (rev ds) \<Longrightarrow> is_digit c" using assms(1) by (simp add: list_all_iff)
  have r: "rev (base @ CHR ''-'' # ds) = rev ds @ CHR ''-'' # rev base" by simp
  have "takeWhile is_digit (rev ds @ CHR ''-'' # rev base) =
      rev ds @ takeWhile is_digit (CHR ''-'' # rev base)"
    by (rule takeWhile_append2) (rule all)
  then have t: "takeWhile is_digit (rev ds @ CHR ''-'' # rev base) = rev ds"
    using hyphen_not_digit by simp
  have "dropWhile is_digit (rev ds @ CHR ''-'' # rev base) =
      dropWhile is_digit (CHR ''-'' # rev base)"
    by (rule dropWhile_append2) (rule all)
  then have d: "dropWhile is_digit (rev ds @ CHR ''-'' # rev base) = CHR ''-'' # rev base"
    using hyphen_not_digit by simp
  show ?thesis using assms(2) unfolding page_suffix_def r t d by (simp add: Let_def)
qed

lemma drop_trailing_slash_numbered:
  assumes "list_all is_digit ds" and "ds \<noteq> []"
  shows "drop_trailing_slash (base @ CHR ''-'' # ds) = base @ CHR ''-'' # ds"
proof -
  have "last (base @ CHR ''-'' # ds) = last ds" using assms(2) by simp
  moreover have "is_digit (last ds)" using assms by (simp add: list_all_iff)
  ultimately have "last (base @ CHR ''-'' # ds) \<noteq> CHR ''/''" using slash_not_digit by metis
  then show ?thesis by (simp add: drop_trailing_slash_def)
qed

lemma rewrite_page_number: "1 \<le> n \<Longrightarrow> current_page_no (rewrite_page u n) = n"
proof -
  assume n: "1 \<le> n"
  obtain base where p: "pathname (rewrite_page u n) = base @ CHR ''-'' # show_nat n"
    and q: "pageNoParam (rewrite_page u n) = None"
    by (simp add: rewrite_page_def Let_def)
  have d: "list_all is_digit (show_nat n)" "show_nat n \<noteq> []" using show_nat_digits by simp_all
  show ?thesis
    using n unfolding current_page_no_def p q
    by (simp add: drop_trailing_slash_numbered [OF d] page_suffix_numbered [OF d]
        digits_value_show_nat Let_def)
qed

lemma served_as_asked_faithful:
  assumes "\<forall>u. pageUrl (site u) = u \<and> nextHref (site u) = None"
  shows "faithful_numbering q site"
  using assms by (simp add: faithful_numbering_def next_page_url_def rewrite_page_number)

text \<open>
  C2, amended. The handler queues no next page exactly when the quota is met, or the
  next page number exceeds the ceiling (\<open>ceil(Q/20)\<close> for \<open>Q > 0\<close>, 50 for \<open>Q = 0\<close>), or
  this call saved no record (which is also how every early exit of the handler ends).
  On a site that numbers its pages faithfully, a run with quota \<open>Q > 0\<close> handles at most
  \<open>ceil(Q/20)\<close> page requests. A site that serves every URL as it was asked and shows
  no \<open>Next\<close> button is such a site: the rewritten \<open>-N\<close> path reads back as page \<open>N\<close>.
\<close>

theorem pagination_stop_and_ceiling:
  "(let st' = fst (requestHandler cfg st u page);
        queued = snd (requestHandler cfg st u page);
        saved = totalJobsScraped st' - totalJobsScraped st;
        nextPageNo = current_page_no (pageUrl page) + 1
    in (inputMaxJobs cfg > 0 \<longrightarrow>
          (queued = None \<longleftrightarrow>
             totalJobsScraped st' \<ge> inputMaxJobs cfg \<or>
             nextPageNo > (inputMaxJobs cfg + 19) div 20 \<or> saved = 0))
     \<and> (inputMaxJobs cfg = 0 \<longrightarrow> (queued = None \<longleftrightarrow> nextPageNo > 50 \<or> saved = 0)))
   \<and> (inputMaxJobs cfg > 0 \<and> faithful_numbering (inputMaxJobs cfg) site \<longrightarrow>
        pagesProcessed (run_crawler cfg site searchUrl) \<le> (inputMaxJobs cfg + 19) div 20)
   \<and> ((\<forall>u. pageUrl (site u) = u \<and> nextHref (site u) = None) \<longrightarrow>
        faithful_numbering (inputMaxJobs cfg) site)"
proof -
  have "inputMaxJobs cfg > 0 \<Longrightarrow> max_pages (inputMaxJobs cfg) = (inputMaxJobs cfg + 19) div 20"
    and "inputMaxJobs cfg = 0 \<Longrightarrow> max_pages (inputMaxJobs cfg) = 50"
    by (simp_all add: max_pages_def)
  then have "(inputMaxJobs cfg > 0 \<longrightarrow>
          (snd (requestHandler cfg st u page) = None \<longleftrightarrow>
             totalJobsScraped (fst (requestHandler cfg st u page)) \<ge> inputMaxJobs cfg \<or>
             current_page_no (pageUrl page) + 1 > (inputMaxJobs cfg + 19) div 20 \<or>
             totalJobsScraped (fst (requestHandler cfg st u page)) - totalJobsScraped st = 0))
     \<and> (inputMaxJobs cfg = 0 \<longrightarrow>
          (snd (requestHandler cfg st u page) = None \<longleftrightarrow>
             current_page_no (pageUrl page) + 1 > 50 \<or>
             totalJobsScraped (fst (requestHandler cfg st u page)) - totalJobsScraped st = 0))"
    using requestHandler_stop_iff [of cfg st u page] by auto
  then show ?thesis
    using run_crawler_ceiling [of cfg site searchUrl]
      served_as_asked_faithful [of site "inputMaxJobs cfg"]
    by (simp add: Let_def)
qed

theorem pagination_stop_and_ceiling_witness:
  "inputMaxJobs quota_40 > 0 \<and> faithful_numbering (inputMaxJobs quota_40) numbered_site
   \<and> pagesProcessed (run_crawler quota_40 numbered_site start_url) = 2
   \<and> pagesProcessed (run_crawler quota_40 numbered_site start_url) \<le> (inputMaxJobs quota_40 + 19) div 20
   \<and> snd (requestHandler quota_40 initial_state start_url (numbered_site start_url)) \<noteq> None
   \<and> totalJobsScraped (fst (requestHandler quota_40 initial_state start_url (numbered_site start_url))) = 1
   \<and> current_page_no (pageUrl (numbered_site start_url)) + 1 = 2
   \<and> faithful_numbering (inputMaxJobs quota_40) (\<lambda>u. one_job_page u None)"
proof -
  have q: "inputMaxJobs quota_40 = 40" by (simp add: quota_40_def)
  have s: "\<forall>u. pageUrl (one_job_page u None) = u \<and> nextHref (one_job_page u None) = None"
    by (simp add: one_job_page_def)
  have fs: "faithful_numbering (inputMaxJobs quota_40) (\<lambda>u. one_job_page u None)"
    using pagination_stop_and_ceiling [of quota_40 initial_state start_url "numbered_site start_url"
        "\<lambda>u. one_job_page u None" start_url] s by blast
  have f: "faithful_numbering (inputMaxJobs quota_40) numbered_site"
    unfolding q by (rule numbered_site_faithful)
  have p: "pagesProcessed (run_crawler quota_40 numbered_site start_url) = 2"
    by code_simp
  have n: "snd (requestHandler quota_40 initial_state start_url (numbered_site start_url)) \<noteq> None"
    by code_simp
  have t: "totalJobsScraped (fst (requestHandler quota_40 initial_state start_url (numbered_site start_url))) = 1"
    by code_simp
  have c: "current_page_no (pageUrl (numbered_site start_url)) + 1 = 2"
    by code_simp
  have "pagesProcessed (run_crawler quota_40 numbered_site start_url) \<le> (inputMaxJobs quota_40 + 19) div 20"
    using pagination_stop_and_ceiling [of quota_40 initial_state start_url "numbered_site start_url"
        numbered_site start_url] f q by simp
  then show ?thesis using q f p n t c fs by simp
qed

text \<open>
  The claim as stated, for every run, fails: on \<open>unnumbered_site\<close> each page saves one
  new job and its \<open>Next\<close> target reads as page 1 again, so with quota 40 (ceiling 2) the
  crawler handles seven requests, the limit of \<open>maxRequestsPerCrawl\<close>.
\<close>

theorem pagination_ceiling_counterexample:
  "inputMaxJobs quota_40 = 40
   \<and> (inputMaxJobs quota_40 + 19) div 20 = 2
   \<and> pagesProcessed (run_crawler quota_40 unnumbered_site start_url) = 7
   \<and> totalJobsScraped (run_crawler quota_40 unnumbered_site start_url) = 7
   \<and> \<not> pagesProcessed (run_crawler quota_40 unnumbered_site start_url) \<le> (inputMaxJobs quota_40 + 19) div 20"
proof -
  have q: "inputMaxJobs quota_40 = 40" by (simp add: quota_40_def)
  have p: "pagesProcessed (run_crawler quota_40 unnumbered_site start_url) = 7"
    by code_simp
  have t: "totalJobsScraped (run_crawler quota_40 unnumbered_site start_url) = 7"
    by code_simp
  show ?thesis using q p t by simp
qed

section \<open>Properties of the detail fetch and of enrichment\<close>

lemma session_block: "sessionPath env = Response s doc \<Longrightarrow> block_status s \<Longrightarrow> session_request env = Blocked"
  by (simp add: session_request_def)

lemma fetch_session_block:
  assumes "reaches_session env" and "sessionPath env = Response s doc" and "block_status s"
  shows "fetchFullDescription env = Blocked"
proof -
  have "fetchFullDescription env = session_request env"
    using assms(1) by (auto simp: fetchFullDescription_def reaches_session_def split: http_result.splits)
  then show ?thesis using session_block [OF assms(2,3)] by simp
qed

lemma describe_challenge: "challenge_title (docTitle doc) \<Longrightarrow> describe_doc doc viaPage = Blocked"
  by (simp add: describe_doc_def)

lemma fetch_challenge_title:
  assumes "fetched_doc env = Some doc" and "challenge_title (docTitle doc)"
  shows "fetchFullDescription env = Blocked"
  using assms
  by (auto simp: fetched_doc_def fetchFullDescription_def session_request_def describe_challenge
      block_status_def Let_def split: http_result.splits if_splits)

lemma enrich_loop_blocked_count:
  "snd (enrich_loop fetch js acc bc) =
     bc + length (filter (\<lambda>j. truthy (url j) \<and> fetch (url j) = Blocked) js)"
  by (induction js arbitrary: acc bc) (auto split: outcome.splits)

lemma enrich_batches_result:
  "0 < n \<Longrightarrow> enrich_batches fetch n js acc bc =
     (acc @ map (\<lambda>j. fst (enrich_job fetch j)) js, bc + sum_list (map (\<lambda>j. snd (enrich_job fetch j)) js))"
proof (induction fetch n js acc bc rule: enrich_batches.induct)
  case (1 fetch batchSize jobs enrichedJobs blockedCount)
  show ?case
  proof (cases "jobs = []")
    case True
    then show ?thesis by (simp add: enrich_batches.simps)
  next
    case False
    have split: "jobs = take batchSize jobs @ drop batchSize jobs" by simp
    have "enrich_batches fetch batchSize jobs enrichedJobs blockedCount =
        enrich_batches fetch batchSize (drop batchSize jobs)
          (enrichedJobs @ map fst (map (enrich_job fetch) (take batchSize jobs)))
          (blockedCount + sum_list (map snd (map (enrich_job fetch) (take batchSize jobs))))"
      using False "1.prems" by (subst enrich_batches.simps) (simp add: Let_def)
    also have "\<dots> =
        ((enrichedJobs @ map fst (map (enrich_job fetch) (take batchSize jobs))) @
           map (\<lambda>j. fst (enrich_job fetch j)) (drop batchSize jobs),
         (blockedCount + sum_list (map snd (map (enrich_job fetch) (take batchSize jobs)))) +
           sum_list (map (\<lambda>j. snd (enrich_job fetch j)) (drop batchSize jobs)))"
      using "1.IH" False "1.prems" by simp
    also have "\<dots> =
        (enrichedJobs @ map (\<lambda>j. fst (enrich_job fetch j)) (take batchSize jobs @ drop batchSize jobs),
         blockedCount + sum_list (map (\<lambda>j. snd (enrich_job fetch j)) (take batchSize jobs @ drop batchSize jobs)))"
      by (simp only: map_append sum_list_append map_map comp_def append_assoc add.assoc)
    finally show ?thesis by (simp only: append_take_drop_id)
  qed
qed

lemma enrich_job_blocked_snd:
  "snd (enrich_job fetch j) = (if truthy (url j) \<and> fetch (url j) = Blocked then 1 else 0)"
  by (auto simp: enrich_job_def split: outcome.splits)

lemma sum_list_indicator:
  "sum_list (map (\<lambda>j. if P j then 1 else 0) js) = length (filter P js)"
  by (induction js) simp_all

text \<open>
  C4, amended. A block status (403, 503, 429) on the session request is classified
  Blocked; the session request is what answers when the fast path raised or itself got a
  block status. A document answered with status 200 whose title contains
  \<open>Just a moment\<close>, \<open>Cloudflare\<close> or \<open>Security check\<close> is classified Blocked. On a Blocked
  outcome both enrichment loops keep the record as it is and add exactly one to
  \<open>blockedCount\<close>, so that the count of a call is the number of its blocked records.
\<close>

theorem blocked_classification:
  "(reaches_session env \<and> sessionPath env = Response s doc \<and> block_status s \<longrightarrow>
      fetchFullDescription env = Blocked)
   \<and> (fetched_doc env = Some doc \<and> challenge_title (docTitle doc) \<longrightarrow>
      fetchFullDescription env = Blocked)
   \<and> (truthy (url j) \<and> fetch (url j) = Blocked \<longrightarrow>
      enrich_job fetch j = (j, 1) \<and>
      enrich_loop fetch (j # rest) acc bc = enrich_loop fetch rest (acc @ [j]) (bc + 1))
   \<and> snd (enrich_loop fetch js acc bc) =
        bc + length (filter (\<lambda>j. truthy (url j) \<and> fetch (url j) = Blocked) js)
   \<and> (0 < n \<longrightarrow> snd (enrich_batches fetch n js acc bc) =
        bc + length (filter (\<lambda>j. truthy (url j) \<and> fetch (url j) = Blocked) js))"
proof (intro conjI impI)
  assume "reaches_session env \<and> sessionPath env = Response s doc \<and> block_status s"
  then show "fetchFullDescription env = Blocked" using fetch_session_block by blast
next
  assume "fetched_doc env = Some doc \<and> challenge_title (docTitle doc)"
  then show "fetchFullDescription env = Blocked" using fetch_challenge_title by blast
next
  assume "truthy (url j) \<and> fetch (url j) = Blocked"
  then show "enrich_job fetch j = (j, 1)" by (simp add: enrich_job_def)
next
  assume "truthy (url j) \<and> fetch (url j) = Blocked"
  then show "enrich_loop fetch (j # rest) acc bc = enrich_loop fetch rest (acc @ [j]) (bc + 1)"
    by simp
next
  show "snd (enrich_loop fetch js acc bc) =
        bc + length (filter (\<lambda>j. truthy (url j) \<and> fetch (url j) = Blocked) js)"
    by (rule enrich_loop_blocked_count)
next
  assume "0 < n"
  then show "snd (enrich_batches fetch n js acc bc) =
        bc + length (filter (\<lambda>j. truthy (url j) \<and> fetch (url j) = Blocked) js)"
    by (simp add: enrich_batches_result enrich_job_blocked_snd sum_list_indicator)
qed

theorem blocked_classification_witness:
  "reaches_session \<lparr>fastPath = Threw ''timeout'', sessionPath = Response 403 full_doc, pageFallback = None\<rparr>
   \<and> block_status 403
   \<and> fetchFullDescription \<lparr>fastPath = Threw ''timeout'', sessionPath = Response 403 full_doc, pageFallback = None\<rparr> = Blocked
   \<and> fetched_doc \<lparr>fastPath = Response 200 challenge_doc, sessionPath = Threw [], pageFallback = None\<rparr> = Some challenge_doc
   \<and> challenge_title (docTitle challenge_doc)
   \<and> fetchFullDescription \<lparr>fastPath = Response 200 challenge_doc, sessionPath = Threw [], pageFallback = None\<rparr> = Blocked
   \<and> truthy (url listed_job)
   \<and> enrich_job (\<lambda>u. Blocked) listed_job = (listed_job, 1)
   \<and> enrichJobsWithFullDescriptions (\<lambda>u. Blocked) [listed_job] True = ([listed_job], 1)
   \<and> enrichJobsWithFullDescriptions_http (\<lambda>u. Blocked) [listed_job] 20 = Some ([listed_job], 1)"
proof -
  let ?e1 = "\<lparr>fastPath = Threw ''timeout'', sessionPath = Response 403 full_doc, pageFallback = None\<rparr>"
  let ?e2 = "\<lparr>fastPath = Response 200 challenge_doc, sessionPath = Threw [], pageFallback = None\<rparr>"
  have r: "reaches_session ?e1" by (simp add: reaches_session_def)
  have b: "block_status 403" by (simp add: block_status_def)
  have f: "fetched_doc ?e2 = Some challenge_doc"
    by (simp add: fetched_doc_def block_status_def)
  have c: "challenge_title (docTitle challenge_doc)" by code_simp
  have t: "truthy (url listed_job)" by (simp add: listed_job_def listing_job_def)
  have m: "enrichJobsWithFullDescriptions (\<lambda>u. Blocked) [listed_job] True = ([listed_job], 1)"
    using t by (simp add: enrichJobsWithFullDescriptions_def)
  have h: "enrichJobsWithFullDescriptions_http (\<lambda>u. Blocked) [listed_job] 20 = Some ([listed_job], 1)"
    using t by (simp add: enrichJobsWithFullDescriptions_http_def enrich_batches_result enrich_job_def)
  have "fetchFullDescription ?e1 = Blocked" and "fetchFullDescription ?e2 = Blocked"
    and "enrich_job (\<lambda>u. Blocked) listed_job = (listed_job, 1)"
    using blocked_classification [of ?e1 403 full_doc listed_job "\<lambda>u. Blocked"] r b
      blocked_classification [of ?e2 _ challenge_doc listed_job "\<lambda>u. Blocked"] f c t
    by simp_all
  then show ?thesis using r b f c t m h by simp
qed

text \<open>
  The claim as stated fails in two ways. A 403 on the fast path is not classified: the
  session request answers, and when that gives the page the outcome is Ok. And the title
  is looked at only for a document answered with status 200: a challenge title under
  status 500 gives no content, not Blocked.
\<close>

theorem blocked_classification_counterexample:
  "block_status 403
   \<and> fetchFullDescription \<lparr>fastPath = Response 403 challenge_doc, sessionPath = Response 200 full_doc,
        pageFallback = None\<rparr> \<noteq> Blocked
   \<and> challenge_title (docTitle challenge_doc)
   \<and> fetchFullDescription \<lparr>fastPath = Response 500 challenge_doc, sessionPath = Response 500 challenge_doc,
        pageFallback = None\<rparr> = NoContent"
proof -
  have "fetchFullDescription \<lparr>fastPath = Response 403 challenge_doc, sessionPath = Response 200 full_doc,
        pageFallback = None\<rparr> \<noteq> Blocked"
    by code_simp
  moreover have "challenge_title (docTitle challenge_doc)" by code_simp
  moreover have "fetchFullDescription \<lparr>fastPath = Response 500 challenge_doc,
        sessionPath = Response 500 challenge_doc, pageFallback = None\<rparr> = NoContent"
    by (simp add: fetchFullDescription_def block_status_def)
  ultimately show ?thesis by (simp add: block_status_def)
qed







section \<open>Properties of the sanitizer\<close>

lemma remove_noise_named: "named n \<Longrightarrow> list_all named (remove_noise n)"
  by (induction n) (auto simp: list_all_iff)

lemma toLowerCase_empty: "toLowerCase t = [] \<longleftrightarrow> t = []"
  by (simp add: toLowerCase_def)

lemma unwrap_tags: "named n \<Longrightarrow> list_all tags_allowed (unwrap n)"
  by (induction n) (auto simp: list_all_iff Let_def toLowerCase_empty)

lemma strip_attributes_tags: "tags_allowed n \<Longrightarrow> tags_allowed (strip_attributes n)"
  by (induction n) (auto simp: list_all_iff)

lemma strip_attributes_href: "only_href (strip_attributes n)"
  by (induction n) (auto simp: list_all_iff)

lemma remove_empty_tags: "tags_allowed n \<Longrightarrow> list_all tags_allowed (remove_empty n)"
  by (induction n) (auto simp: list_all_iff)

lemma remove_empty_href: "only_href n \<Longrightarrow> list_all only_href (remove_empty n)"
  by (induction n) (auto simp: list_all_iff)

lemma sanitize_nodes_allowed:
  assumes "list_all named ns"
  shows "list_all tags_allowed (sanitize_nodes ns) \<and> list_all only_href (sanitize_nodes ns)"
proof -
  have 1: "list_all named (concat (map remove_noise ns))"
    using assms remove_noise_named by (auto simp: list_all_iff)
  have 2: "list_all tags_allowed (concat (map unwrap (concat (map remove_noise ns))))"
    using 1 unwrap_tags by (fastforce simp: list_all_iff)
  have 3: "list_all tags_allowed (map strip_attributes (concat (map unwrap (concat (map remove_noise ns)))))"
    using 2 strip_attributes_tags by (auto simp: list_all_iff)
  have 4: "list_all only_href (map strip_attributes (concat (map unwrap (concat (map remove_noise ns)))))"
    using strip_attributes_href by (auto simp: list_all_iff)
  have "list_all tags_allowed (sanitize_nodes ns)"
    unfolding sanitize_nodes_def using 3 remove_empty_tags by (fastforce simp: list_all_iff)
  moreover have "list_all only_href (sanitize_nodes ns)"
    unfolding sanitize_nodes_def using 4 remove_empty_href by (fastforce simp: list_all_iff)
  ultimately show ?thesis by simp
qed

text \<open>
  C6, at the fragment \<open><p><b></b></p>\<close>. The pass that removes empty elements tests the
  paragraph while the empty \<open>b\<close> is still inside it and keeps it, then removes the \<open>b\<close>:
  the result is an empty paragraph, which a second run removes. So the sanitizer is not
  idempotent, and its output can hold an element with no children and no text. (Lemma
  \<open>sanitize_nodes_allowed\<close> proves the other half of the claim: the output holds only
  allowed tags and no attribute but \<open>href\<close>.)
\<close>

theorem sanitizer_not_idempotent:
  "sanitize_nodes [Element ''p'' [] [Element ''b'' [] []]] = [Element ''p'' [] []]
   \<and> sanitize_nodes (sanitize_nodes [Element ''p'' [] [Element ''b'' [] []]]) = []
   \<and> sanitize_nodes (sanitize_nodes [Element ''p'' [] [Element ''b'' [] []]]) \<noteq>
       sanitize_nodes [Element ''p'' [] [Element ''b'' [] []]]"
proof -
  have 1: "sanitize_nodes [Element ''p'' [] [Element ''b'' [] []]] = [Element ''p'' [] []]"
    by code_simp
  have 2: "sanitize_nodes [Element ''p'' [] []] = []"
    by code_simp
  show ?thesis by (simp add: 1 2)
qed

end
